theory Spec2Isabelle
  imports Main "HOL-Library.Sublist"
begin

section \<open>The query generator of the mapper (lib/mapping/query-generator.js)\<close>

text \<open>
  The class \<open>QueryGenerator\<close> renders the text of SELECT, INSERT, UPDATE and DELETE
  statements and, for each, builds the text of a JavaScript function that reads the
  positional parameters from a document, which it compiles with \<open>vm.Script\<close>. The query
  text is modelled as a \<open>string\<close>, character by character as the source concatenates it.
  The pieces of script text that the generator concatenates are kept as tokens (element
  expressions and commas), of which \<open>show_script\<close> gives the text; the script handed to
  \<open>vm.Script\<close> is that text, and \<open>runInThisContext\<close> reads it back character by character
  before it evaluates the array literal it holds.
\<close>

subsection \<open>JavaScript values\<close>

text \<open>
  The values bound in a document or in a property descriptor. \<open>JOp key value hasChildValues
  isInOperator\<close> is an instance of \<open>QueryOperator\<close> and \<open>JAssign sign value inverted\<close> an
  instance of \<open>QueryAssignment\<close> (module \<open>./q\<close>): these are the fields the generator reads.
  \<open>JObj\<close> is a plain object, given by its own properties. \<open>JInherited\<close> is a member that
  every plain object inherits from \<open>Object.prototype\<close> (a method such as \<open>toString\<close>, or
  the prototype itself under \<open>__proto__\<close>); it has none of the properties \<open>value\<close>, \<open>0\<close>,
  \<open>1\<close> and \<open>map\<close> that the scripts read. Numbers are modelled by integers: the generator
  only asks whether a value is a number.
\<close>

datatype jsval =
    JUndefined
  | JNull
  | JBool bool
  | JNum int
  | JStr string
  | JArr "jsval list"
  | JObj "(string \<times> jsval) list"
  | JOp string jsval bool bool
  | JAssign string jsval bool
  | JInherited

text \<open>
  The errors raised: a \<open>TypeError\<close>, a \<open>SyntaxError\<close>, and what a conversion function
  throws. \<open>Unparsed\<close> is no error of the source: it stands for a script that is none of the
  scripts read in this theory, of which nothing is said here.
\<close>

datatype error = TypeError | SyntaxError | Thrown string | Unparsed

type_synonym obj = "(string \<times> jsval) list"

text \<open>The names of the members of \<open>Object.prototype\<close>.\<close>

definition objectPrototypeNames :: "string list" where
  "objectPrototypeNames =
     [''constructor'', ''__defineGetter__'', ''__defineSetter__'', ''hasOwnProperty'',
      ''__lookupGetter__'', ''__lookupSetter__'', ''isPrototypeOf'', ''propertyIsEnumerable'',
      ''toString'', ''valueOf'', ''__proto__'', ''toLocaleString'']"

text \<open>
  Reading a property of a plain object: the own property when there is one, else the
  inherited member when the name is one of \<open>Object.prototype\<close>, else \<open>undefined\<close>.
\<close>

definition lookup :: "obj \<Rightarrow> string \<Rightarrow> jsval" where
  "lookup kvs k =
     (case map_of kvs k of
        Some v \<Rightarrow> v
      | None \<Rightarrow> if k \<in> set objectPrototypeNames then JInherited else JUndefined)"

text \<open>\<open>typeof x === "number"\<close>.\<close>

fun isNumber :: "jsval \<Rightarrow> bool" where
  "isNumber (JNum n) = True"
| "isNumber v = False"

text \<open>The truth value JavaScript gives a value in a condition.\<close>

fun truthy :: "jsval \<Rightarrow> bool" where
  "truthy JUndefined = False"
| "truthy JNull = False"
| "truthy (JBool b) = b"
| "truthy (JNum n) = (n \<noteq> 0)"
| "truthy (JStr s) = (s \<noteq> [])"
| "truthy v = True"

text \<open>\<open>x instanceof QueryOperator\<close> and \<open>x instanceof QueryAssignment\<close>.\<close>

fun isQueryOperator :: "jsval \<Rightarrow> bool" where
  "isQueryOperator (JOp k v hc isIn) = True"
| "isQueryOperator v = False"

fun isQueryAssignment :: "jsval \<Rightarrow> bool" where
  "isQueryAssignment (JAssign s v iv) = True"
| "isQueryAssignment v = False"

text \<open>
  \<open>x.value\<close>: a TypeError on \<open>undefined\<close> and \<open>null\<close>, the field of an operator or an
  assignment, the own property of a plain object, \<open>undefined\<close> on every other value.
\<close>

fun js_value :: "jsval \<Rightarrow> error + jsval" where
  "js_value JUndefined = Inl TypeError"
| "js_value JNull = Inl TypeError"
| "js_value (JOp k v hc isIn) = Inr v"
| "js_value (JAssign s v iv) = Inr v"
| "js_value (JObj kvs) = Inr (lookup kvs ''value'')"
| "js_value v = Inr JUndefined"

text \<open>The two indices the generator writes: \<open>[0]\<close> and \<open>[1]\<close>.\<close>

datatype idx = I0 | I1

fun idx_nat :: "idx \<Rightarrow> nat" where
  "idx_nat I0 = 0"
| "idx_nat I1 = 1"

fun idx_key :: "idx \<Rightarrow> string" where
  "idx_key I0 = ''0''"
| "idx_key I1 = ''1''"

text \<open>
  \<open>x[i]\<close>: a TypeError on \<open>undefined\<close> and \<open>null\<close>; an element of an array or a character
  of a string, \<open>undefined\<close> out of range; the own property named by the index on a plain
  object; \<open>undefined\<close> on every other value.
\<close>

fun js_index :: "jsval \<Rightarrow> idx \<Rightarrow> error + jsval" where
  "js_index JUndefined i = Inl TypeError"
| "js_index JNull i = Inl TypeError"
| "js_index (JArr xs) i = Inr (if idx_nat i < length xs then xs ! idx_nat i else JUndefined)"
| "js_index (JStr s) i = Inr (if idx_nat i < length s then JStr [s ! idx_nat i] else JUndefined)"
| "js_index (JObj kvs) i = Inr (lookup kvs (idx_key i))"
| "js_index v i = Inr JUndefined"

subsection \<open>Schema and property descriptors\<close>

text \<open>
  Modelled from the spec: the type codes of \<open>types.dataTypes\<close> (module \<open>../types\<close>), of which
  the generator compares \<open>dataTypes.list\<close> and \<open>dataTypes.counter\<close>; every other code is
  \<open>OtherType\<close> with its number.
\<close>

datatype type_code = ListType | CounterType | OtherType nat

text \<open>A column of the table metadata: \<open>column.name\<close> and \<open>column.type.code\<close>.\<close>

record column =
  cname :: string
  code :: type_code

text \<open>
  The table metadata. \<open>columnsByName\<close> gives the own properties of the object
  \<open>table.columnsByName\<close>: the columns, by name.
\<close>

record table =
  name :: string
  columnsByName :: "string \<rightharpoonup> column"
  partitionKeys :: "column list"
  clusteringKeys :: "column list"

text \<open>
  Modelled from the spec: the table schema, whose metadata module is not among the sources
  read here, is a mapping from column name to column descriptor. The source reads it by
  property access, \<open>table.columnsByName[name]\<close>, that is, as an ordinary object with one
  own property for each column. The value read is then the column under an own property;
  for a name that is no own property it is the member inherited from \<open>Object.prototype\<close>
  when the name is one of its names, which is not \<open>undefined\<close> and has no property
  \<open>type\<close>, and \<open>undefined\<close> otherwise.
\<close>

datatype entry = NoEntry | ColumnEntry column | InheritedEntry

definition columnByName :: "table \<Rightarrow> string \<Rightarrow> entry" where
  "columnByName table n =
     (case columnsByName table n of
        Some column \<Rightarrow> ColumnEntry column
      | None \<Rightarrow> if n \<in> set objectPrototypeNames then InheritedEntry else NoEntry)"

type_synonym conv = "jsval \<Rightarrow> error + jsval"

text \<open>
  An item of \<open>propertiesInfo\<close>. \<open>fromModel\<close> is the conversion function of the property
  when the mapping declares one (\<open>None\<close> is \<open>undefined\<close>); the generator only tests it.
\<close>

record pinfo =
  propertyName :: string
  columnName :: string
  val :: jsval
  fromModel :: "conv option"

text \<open>
  The execution options \<open>docInfo\<close>, with the keys the generator and the generated functions
  read. \<open>when\<close> is the object of conditions (\<open>None\<close> is \<open>undefined\<close>). The parameter
  \<open>docInfo\<close> itself may be \<open>undefined\<close>: it is a \<open>docinfo option\<close>.
\<close>

record docinfo =
  ttl :: jsval
  limit :: jsval
  "when" :: "obj option"
  deleteOnlyColumns :: jsval

text \<open>\<open>mappingInfo.getFromModelFn(name)\<close>: the registry of conversion functions.\<close>

type_synonym mappinginfo = "string \<Rightarrow> conv option"

subsection \<open>Text helpers\<close>

text \<open>\<open>Array.prototype.join\<close>, on strings and on token sequences alike.\<close>

fun join :: "'a list \<Rightarrow> 'a list list \<Rightarrow> 'a list" where
  "join sep [] = []"
| "join sep [x] = x"
| "join sep (x # y # ys) = x @ sep @ join sep (y # ys)"

text \<open>The number of \<open>?\<close> characters of a query text.\<close>

definition placeholders :: "string \<Rightarrow> nat" where
  "placeholders q = count_list q (CHR ''?'')"

subsection \<open>The generated parameter getters\<close>

text \<open>
  The expressions the generator writes into a script. \<open>Member DocObj p\<close> is the text
  \<open>doc['p']\<close> and \<open>Member DocInfoWhen p\<close> the text \<open>docInfo.when['p']\<close>; \<open>DocInfoKey k\<close> is
  \<open>docInfo['k']\<close>; \<open>Value e\<close> is \<open>e.value\<close>; \<open>Index e i\<close> is \<open>e[i]\<close>;
  \<open>MappingFunctionCall p e\<close> is \<open>mappingInfo.getFromModelFn('p')(e)\<close> and
  \<open>MapEach e p\<close> is \<open>e.map(v => mappingInfo.getFromModelFn('p')(v))\<close>. The names are
  written between the quotes as they are.
\<close>

datatype objname = DocObj | DocInfoWhen

datatype expr =
    Member objname string
  | DocInfoKey string
  | Value expr
  | Index expr idx
  | MappingFunctionCall string expr
  | MapEach expr string

text \<open>A token of the array literal of a script: an element expression or a comma.\<close>

datatype tok = Elem expr | Comma

text \<open>The text of an expression and of a token sequence, as the source writes them.\<close>

fun show_objname :: "objname \<Rightarrow> string" where
  "show_objname DocObj = ''doc''"
| "show_objname DocInfoWhen = ''docInfo.when''"

fun show_expr :: "expr \<Rightarrow> string" where
  "show_expr (Member on p) = show_objname on @ ''['' @ [CHR 0x27] @ p @ [CHR 0x27] @ '']''"
| "show_expr (DocInfoKey k) = ''docInfo['' @ [CHR 0x27] @ k @ [CHR 0x27] @ '']''"
| "show_expr (Value e) = show_expr e @ ''.value''"
| "show_expr (Index e i) = show_expr e @ ''['' @ idx_key i @ '']''"
| "show_expr (MappingFunctionCall p e) =
     ''mappingInfo.getFromModelFn('' @ [CHR 0x27] @ p @ [CHR 0x27] @ '')('' @ show_expr e @ '')''"
| "show_expr (MapEach e p) =
     show_expr e @ ''.map(v => mappingInfo.getFromModelFn('' @ [CHR 0x27] @ p @ [CHR 0x27]
       @ '')(v))''"

fun show_tok :: "tok \<Rightarrow> string" where
  "show_tok (Elem e) = show_expr e"
| "show_tok Comma = '', ''"

text \<open>
  The text around the array literal: \<open>(function fname(doc, docInfo, mappingInfo) {\<close>, a line
  feed and \<open>  return [\<close> before it, \<open>];\<close>, a line feed and \<open>})\<close> after it.
\<close>

definition header :: "string \<Rightarrow> string" where
  "header fname =
     ''(function '' @ fname @ ''(doc, docInfo, mappingInfo) {'' @ [CHR 0x0A] @ ''  return [''"

definition footer :: string where
  "footer = ''];'' @ [CHR 0x0A] @ ''})''"

definition show_script :: "string \<Rightarrow> tok list \<Rightarrow> string" where
  "show_script fname ts = header fname @ concat (map show_tok ts) @ footer"

subsection \<open>Reading a script\<close>

text \<open>
  \<open>vm.Script\<close> is given a text. The part of JavaScript read here is the scripts the
  generator writes, in their own spelling: a header, elements and commas, the footer. The
  text is first cut into string literals and single characters.

  Outside a string literal only the characters of these scripts are read (letters, digits,
  space, line feed and \<open>( ) [ ] { } . , ; = >\<close>); any other character ends the reading with
  \<open>Unparsed\<close>, so that no comment, regular expression, template or other kind of literal is
  ever entered. A quote opens a string literal, which the next quote closes; a backslash
  inside it ends the reading with \<open>Unparsed\<close> (escapes are not read); a line feed, a carriage
  return or the end of the text inside it is a \<open>SyntaxError\<close>, as it is for JavaScript
  whatever the rest of the text is.
\<close>

datatype lexeme = Ch char | Str string

definition plainChar :: "char \<Rightarrow> bool" where
  "plainChar c =
     (c \<in> set (''abcdefghijklmnopqrstuvwxyzABCDEFGHIJKLMNOPQRSTUVWXYZ0123456789 ()[]{}.,;=>''
                @ [CHR 0x0A]))"

text \<open>The first argument is the string literal being read, if any.\<close>

fun scanScript :: "string option \<Rightarrow> string \<Rightarrow> error + lexeme list" where
  "scanScript None [] = Inr []"
| "scanScript (Some s) [] = Inl SyntaxError"
| "scanScript None (c # cs) =
     (if c = CHR 0x27 then scanScript (Some []) cs
      else if plainChar c
      then (case scanScript None cs of Inl e \<Rightarrow> Inl e | Inr ls \<Rightarrow> Inr (Ch c # ls))
      else Inl Unparsed)"
| "scanScript (Some s) (c # cs) =
     (if c = CHR 0x27
      then (case scanScript None cs of Inl e \<Rightarrow> Inl e | Inr ls \<Rightarrow> Inr (Str s # ls))
      else if c = CHR 0x5C then Inl Unparsed
      else if c = CHR 0x0A \<or> c = CHR 0x0D then Inl SyntaxError
      else scanScript (Some (s @ [c])) cs)"

text \<open>Reading a given text, character by character: what follows it, when it is there.\<close>

fun expect :: "string \<Rightarrow> lexeme list \<Rightarrow> lexeme list option" where
  "expect [] ls = Some ls"
| "expect (c # cs) (Ch d # ls) = (if c = d then expect cs ls else None)"
| "expect (c # cs) ls = None"

text \<open>A quoted name and a closing bracket: the name and what follows.\<close>

fun subscript :: "lexeme list \<Rightarrow> (string \<times> lexeme list) option" where
  "subscript (Str p # Ch c # ls) = (if c = CHR '']'' then Some (p, ls) else None)"
| "subscript ls = None"

text \<open>
  The expressions a path starts with: \<open>doc['p']\<close>, \<open>docInfo.when['p']\<close>, and \<open>docInfo['k']\<close>
  for the two keys the generator writes, \<open>ttl\<close> and \<open>limit\<close>.
\<close>

definition parsePrimary :: "lexeme list \<Rightarrow> (expr \<times> lexeme list) option" where
  "parsePrimary ls =
     (case expect ''doc['' ls of
        Some r \<Rightarrow>
          (case subscript r of None \<Rightarrow> None | Some (p, r') \<Rightarrow> Some (Member DocObj p, r'))
      | None \<Rightarrow>
     (case expect ''docInfo.when['' ls of
        Some r \<Rightarrow>
          (case subscript r of None \<Rightarrow> None | Some (p, r') \<Rightarrow> Some (Member DocInfoWhen p, r'))
      | None \<Rightarrow>
     (case expect ''docInfo['' ls of
        Some r \<Rightarrow>
          (case subscript r of None \<Rightarrow> None
           | Some (k, r') \<Rightarrow>
               if k = ''ttl'' \<or> k = ''limit'' then Some (DocInfoKey k, r') else None)
      | None \<Rightarrow> None)))"

text \<open>What may follow in a path, any number of times: \<open>.value\<close>, \<open>[0]\<close> and \<open>[1]\<close>.\<close>

function parsePostfix :: "expr \<Rightarrow> lexeme list \<Rightarrow> expr \<times> lexeme list" where
  "parsePostfix e ls =
     (case expect ''.value'' ls of
        Some r \<Rightarrow> parsePostfix (Value e) r
      | None \<Rightarrow>
     (case expect ''[0]'' ls of
        Some r \<Rightarrow> parsePostfix (Index e I0) r
      | None \<Rightarrow>
     (case expect ''[1]'' ls of
        Some r \<Rightarrow> parsePostfix (Index e I1) r
      | None \<Rightarrow> (e, ls))))"
  by pat_completeness auto

termination
proof (relation "measure (\<lambda>p. length (snd p))")
  have shorter: "length r < length ls" if "expect s ls = Some r" "s \<noteq> []" for s ls r
    using that
  proof (induction s ls arbitrary: r rule: expect.induct)
    case (2 c cs d ls)
    then show ?case by (cases cs) (auto split: if_splits intro: less_SucI)
  qed simp_all
  show "wf (measure (\<lambda>p. length (snd p)))" by simp
  show "((Value e, r), (e, ls)) \<in> measure (\<lambda>p. length (snd p))"
    if "expect ''.value'' ls = Some r" for e ls r
    using shorter [OF that] by simp
  show "((Index e I0, r), (e, ls)) \<in> measure (\<lambda>p. length (snd p))"
    if "expect ''[0]'' ls = Some r" for e ls r
    using shorter [OF that] by simp
  show "((Index e I1, r), (e, ls)) \<in> measure (\<lambda>p. length (snd p))"
    if "expect ''[1]'' ls = Some r" for e ls r
    using shorter [OF that] by simp
qed

declare parsePostfix.simps [simp del]

definition parsePath :: "lexeme list \<Rightarrow> (expr \<times> lexeme list) option" where
  "parsePath ls = (case parsePrimary ls of None \<Rightarrow> None | Some (e, r) \<Rightarrow> Some (parsePostfix e r))"

text \<open>The text \<open>mappingInfo.getFromModelFn('p')(\<close>: the name and what follows.\<close>

definition fromModelCall :: "lexeme list \<Rightarrow> (string \<times> lexeme list) option" where
  "fromModelCall ls =
     (case expect ''mappingInfo.getFromModelFn('' ls of
        None \<Rightarrow> None
      | Some r \<Rightarrow>
          (case r of
             Str p # r' \<Rightarrow> (case expect '')('' r' of None \<Rightarrow> None | Some r'' \<Rightarrow> Some (p, r''))
           | _ \<Rightarrow> None))"

text \<open>
  An element: a path; a path given to a conversion function; or a path whose elements are
  mapped by a conversion function.
\<close>

definition parseElement :: "lexeme list \<Rightarrow> (expr \<times> lexeme list) option" where
  "parseElement ls =
     (case fromModelCall ls of
        Some (p, r) \<Rightarrow>
          (case parsePath r of
             None \<Rightarrow> None
           | Some (e, r') \<Rightarrow>
               (case expect '')'' r' of
                  None \<Rightarrow> None
                | Some r'' \<Rightarrow> Some (MappingFunctionCall p e, r'')))
      | None \<Rightarrow>
          (case parsePath ls of
             None \<Rightarrow> None
           | Some (e, r) \<Rightarrow>
               (case expect ''.map(v => '' r of
                  None \<Rightarrow> Some (e, r)
                | Some r' \<Rightarrow>
                    (case fromModelCall r' of
                       None \<Rightarrow> None
                     | Some (p, r'') \<Rightarrow>
                         (case expect ''v))'' r'' of
                            None \<Rightarrow> None
                          | Some rest \<Rightarrow> Some (MapEach e p, rest))))))"

text \<open>
  The tokens of the array literal, up to the footer, which ends the text: commas (each
  with the space the generator writes after it) and elements.
\<close>

function parseTokens :: "lexeme list \<Rightarrow> tok list option" where
  "parseTokens ls =
     (case expect '', '' ls of
        Some r \<Rightarrow> (case parseTokens r of None \<Rightarrow> None | Some ts \<Rightarrow> Some (Comma # ts))
      | None \<Rightarrow>
     (case expect footer ls of
        Some r \<Rightarrow> (if r = [] then Some [] else None)
      | None \<Rightarrow>
     (case parseElement ls of
        None \<Rightarrow> None
      | Some (e, r) \<Rightarrow> (case parseTokens r of None \<Rightarrow> None | Some ts \<Rightarrow> Some (Elem e # ts)))))"
  by pat_completeness auto

termination
proof -
  have shorter: "length r < length ls" if "expect s ls = Some r" "s \<noteq> []" for s ls r
    using that
  proof (induction s ls arbitrary: r rule: expect.induct)
    case (2 c cs d ls)
    then show ?case by (cases cs) (auto split: if_splits intro: less_SucI)
  qed simp_all
  have sub: "length r < length ls" if "subscript ls = Some (p, r)" for ls p r
    using that by (induction ls rule: subscript.induct) (auto split: if_splits)
  have primary: "length r < length ls" if "parsePrimary ls = Some (e, r)" for ls e r
    using that
    by (auto simp: parsePrimary_def split: option.splits if_splits dest!: shorter sub)
  have postfix: "length (snd (parsePostfix e ls)) \<le> length ls" for e ls
  proof (induction e ls rule: parsePostfix.induct)
    case (1 e ls)
    have step: "length (snd (parsePostfix e' r)) \<le> length ls"
      if "expect s ls = Some r" "s \<noteq> []" "length (snd (parsePostfix e' r)) \<le> length r"
      for s r e'
      using shorter [OF that(1,2)] that(3) by simp
    show ?case
      using "1.IH" by (subst parsePostfix.simps) (auto split: option.splits intro!: step)
  qed
  have path: "length r < length ls" if "parsePath ls = Some (e, r)" for ls e r
  proof -
    from that obtain e0 r0 where p: "parsePrimary ls = Some (e0, r0)"
      and q: "parsePostfix e0 r0 = (e, r)"
      by (auto simp: parsePath_def split: option.splits)
    from postfix [of e0 r0] q have "length r \<le> length r0" by simp
    with primary [OF p] show ?thesis by simp
  qed
  have call: "length r < length ls" if "fromModelCall ls = Some (p, r)" for ls p r
    using that
    by (auto simp: fromModelCall_def split: option.splits list.splits lexeme.splits
          dest!: shorter)
  have element: "length r < length ls" if "parseElement ls = Some (e, r)" for ls e r
    using that
    by (auto simp: parseElement_def split: option.splits dest!: shorter path call)
  have comma: "length r < length ls" if "expect '', '' ls = Some r" for ls r
    using shorter [OF that] by simp
  show ?thesis
    by (relation "measure length") (auto dest: comma element)
qed

declare parseTokens.simps [simp del]

text \<open>The names of the four functions the generator writes.\<close>

definition functionNames :: "string list" where
  "functionNames =
     [''getParametersSelect'', ''getParametersInsert'', ''getParametersUpdate'',
      ''getParametersDelete'']"

fun parseHeader :: "string list \<Rightarrow> lexeme list \<Rightarrow> lexeme list option" where
  "parseHeader [] ls = None"
| "parseHeader (fname # fnames) ls =
     (case expect (header fname) ls of Some r \<Rightarrow> Some r | None \<Rightarrow> parseHeader fnames ls)"

definition parseScript :: "lexeme list \<Rightarrow> tok list option" where
  "parseScript ls =
     (case parseHeader functionNames ls of None \<Rightarrow> None | Some r \<Rightarrow> parseTokens r)"

subsection \<open>Evaluating a script\<close>

text \<open>
  The elements of the array literal \<open>[ts]\<close>. A comma that follows an element closes it; any
  other comma is an elision and leaves a hole (\<open>None\<close>), which counts in the length of the
  array: \<open>[, a]\<close> has length 2 and \<open>[a, ]\<close> has length 1. Two elements with no comma between
  them are a SyntaxError. The flag tells that the last token was an element.
\<close>

fun elements :: "bool \<Rightarrow> tok list \<Rightarrow> error + expr option list" where
  "elements prev [] = Inr []"
| "elements prev (Comma # ts) =
     (if prev then elements False ts
      else (case elements False ts of Inl e \<Rightarrow> Inl e | Inr es \<Rightarrow> Inr (None # es)))"
| "elements prev (Elem x # ts) =
     (if prev then Inl SyntaxError
      else (case elements True ts of Inl e \<Rightarrow> Inl e | Inr es \<Rightarrow> Inr (Some x # es)))"

text \<open>Running a list of fallible steps from left to right, stopping at the first error.\<close>

fun mapE :: "('a \<Rightarrow> error + 'b) \<Rightarrow> 'a list \<Rightarrow> error + 'b list" where
  "mapE f [] = Inr []"
| "mapE f (x # xs) =
     (case f x of Inl e \<Rightarrow> Inl e
      | Inr y \<Rightarrow> (case mapE f xs of Inl e \<Rightarrow> Inl e | Inr ys \<Rightarrow> Inr (y # ys)))"

text \<open>Calling the conversion function registered for a property; calling \<open>undefined\<close> is a TypeError.\<close>

definition callFromModel :: "mappinginfo \<Rightarrow> string \<Rightarrow> jsval \<Rightarrow> error + jsval" where
  "callFromModel mappingInfo p x =
     (case mappingInfo p of None \<Rightarrow> Inl TypeError | Some f \<Rightarrow> f x)"

text \<open>The value of an expression on the arguments \<open>(doc, docInfo, mappingInfo)\<close> of a getter.\<close>

fun eval :: "obj \<Rightarrow> docinfo option \<Rightarrow> mappinginfo \<Rightarrow> expr \<Rightarrow> error + jsval" where
  "eval doc docInfo mappingInfo (Member DocObj p) = Inr (lookup doc p)"
| "eval doc docInfo mappingInfo (Member DocInfoWhen p) =
     (case docInfo of None \<Rightarrow> Inl TypeError
      | Some d \<Rightarrow> (case when d of None \<Rightarrow> Inl TypeError | Some w \<Rightarrow> Inr (lookup w p)))"
| "eval doc docInfo mappingInfo (DocInfoKey k) =
     (case docInfo of None \<Rightarrow> Inl TypeError
      | Some d \<Rightarrow> Inr (if k = ''ttl'' then ttl d else if k = ''limit'' then limit d
                        else if k = ''deleteOnlyColumns'' then deleteOnlyColumns d
                        else if k = ''when'' then (case when d of None \<Rightarrow> JUndefined | Some w \<Rightarrow> JObj w)
                        else JUndefined))"
| "eval doc docInfo mappingInfo (Value e) =
     (case eval doc docInfo mappingInfo e of Inl err \<Rightarrow> Inl err | Inr x \<Rightarrow> js_value x)"
| "eval doc docInfo mappingInfo (Index e i) =
     (case eval doc docInfo mappingInfo e of Inl err \<Rightarrow> Inl err | Inr x \<Rightarrow> js_index x i)"
| "eval doc docInfo mappingInfo (MappingFunctionCall p e) =
     (case eval doc docInfo mappingInfo e of Inl err \<Rightarrow> Inl err
      | Inr x \<Rightarrow> callFromModel mappingInfo p x)"
| "eval doc docInfo mappingInfo (MapEach e p) =
     (case eval doc docInfo mappingInfo e of Inl err \<Rightarrow> Inl err
      | Inr x \<Rightarrow> (case x of
           JArr xs \<Rightarrow> (case mapE (callFromModel mappingInfo p) xs of
                          Inl err \<Rightarrow> Inl err | Inr ys \<Rightarrow> Inr (JArr ys))
         | _ \<Rightarrow> Inl TypeError))"

text \<open>
  A slot of the returned array: a value, or a hole (\<open>None\<close>) left by an elision.
\<close>

type_synonym slot = "jsval option"

fun evalElement :: "obj \<Rightarrow> docinfo option \<Rightarrow> mappinginfo \<Rightarrow> expr option \<Rightarrow> error + slot" where
  "evalElement doc docInfo mappingInfo None = Inr None"
| "evalElement doc docInfo mappingInfo (Some e) =
     (case eval doc docInfo mappingInfo e of Inl err \<Rightarrow> Inl err | Inr x \<Rightarrow> Inr (Some x))"

type_synonym getter = "obj \<Rightarrow> docinfo option \<Rightarrow> mappinginfo \<Rightarrow> error + slot list"

text \<open>
  The function a script with the tokens \<open>ts\<close> gives: the array literal is well-formed (a
  SyntaxError otherwise) and the function evaluates its elements in order.
\<close>

definition evaluator :: "tok list \<Rightarrow> error + getter" where
  "evaluator ts =
     (case elements False ts of Inl e \<Rightarrow> Inl e
      | Inr es \<Rightarrow> Inr (\<lambda>doc docInfo mappingInfo. mapE (evalElement doc docInfo mappingInfo) es))"

text \<open>
  \<open>new vm.Script(scriptText).runInThisContext()\<close>: the text is read (a SyntaxError is raised
  here) and gives the function that evaluates the elements it holds.
\<close>

definition runInThisContext :: "string \<Rightarrow> error + getter" where
  "runInThisContext scriptText =
     (case scanScript None scriptText of
        Inl e \<Rightarrow> Inl e
      | Inr ls \<Rightarrow> (case parseScript ls of None \<Rightarrow> Inl Unparsed | Some ts \<Rightarrow> evaluator ts))"

subsection \<open>Conditions and value getters\<close>

text \<open>\<open>_getSingleCondition(columnName, value)\<close>.\<close>

function (sequential) getSingleCondition :: "string \<Rightarrow> jsval \<Rightarrow> error + string" where
  "getSingleCondition columnName' (JOp key v hasChildValues isInOperator) =
     (if hasChildValues then
        (case js_index v I0 of Inl e \<Rightarrow> Inl e
         | Inr v0 \<Rightarrow>
            (case getSingleCondition columnName' v0 of Inl e \<Rightarrow> Inl e
             | Inr c0 \<Rightarrow>
                (case js_index v I1 of Inl e \<Rightarrow> Inl e
                 | Inr v1 \<Rightarrow>
                    (case getSingleCondition columnName' v1 of Inl e \<Rightarrow> Inl e
                     | Inr c1 \<Rightarrow> Inr (c0 @ '' '' @ key @ '' '' @ c1)))))
      else Inr (columnName' @ '' '' @ key @ '' ?''))"
| "getSingleCondition columnName' v = Inr (columnName' @ '' = ?'')"
  by pat_completeness auto

termination
proof (relation "measure (\<lambda>p. size (snd p))")
  have lk: "size (lookup kvs k) \<le> size_list (size_prod (\<lambda>_. 0) size) kvs" for kvs k
  proof (induction kvs)
    case Nil
    show ?case by (simp add: lookup_def)
  next
    case (Cons kv kvs)
    then show ?case by (cases kv) (auto simp: lookup_def split: option.splits)
  qed
  have nth: "i < length xs \<Longrightarrow> size (xs ! i) \<le> size_list size xs" for i and xs :: "jsval list"
  proof (induction xs arbitrary: i)
    case Nil
    then show ?case by simp
  next
    case (Cons x xs)
    then show ?case by (cases i) (auto intro: le_SucI trans_le_add2)
  qed
  have idx: "size x < Suc (size v)" if "js_index v i = Inr x" for v i x
  proof (cases v)
    case (JArr xs)
    with that show ?thesis using nth [of "idx_nat i" xs] by (auto split: if_splits)
  next
    case (JObj kvs)
    with that show ?thesis using lk [of kvs "idx_key i"] by auto
  qed (use that in \<open>auto split: if_splits\<close>)
  show "wf (measure (\<lambda>p. size (snd p)))" by simp
  show "((c, v0), (c, JOp key v hc isIn)) \<in> measure (\<lambda>p. size (snd p))"
    if "js_index v I0 = Inr v0" for c key v hc isIn v0
    using idx [OF that] by simp
  show "((c, v1), (c, JOp key v hc isIn)) \<in> measure (\<lambda>p. size (snd p))"
    if "js_index v I1 = Inr v1" for c key v hc isIn v1
    using idx [OF that] by simp
qed

text \<open>\<open>_getConditionWithOperators(propertiesInfo)\<close>.\<close>

definition getConditionWithOperators :: "pinfo list \<Rightarrow> error + string" where
  "getConditionWithOperators propertiesInfo =
     (case mapE (\<lambda>p. getSingleCondition (columnName p) (val p)) propertiesInfo of
        Inl e \<Rightarrow> Inl e
      | Inr cs \<Rightarrow> Inr (join '' AND '' cs))"

text \<open>\<open>_getMappingFunctionCall(propName, valueGetter)\<close>.\<close>

definition getMappingFunctionCall :: "string \<Rightarrow> expr \<Rightarrow> expr" where
  "getMappingFunctionCall propName valueGetter = MappingFunctionCall propName valueGetter"

text \<open>
  \<open>_valueGetterSingle(prefix, propName, value, fromModelFn)\<close>. The text returned for an
  operator with child values is the two getters with \<open>", "\<close> between them.
\<close>

function (sequential) valueGetterSingle :: "expr \<Rightarrow> string \<Rightarrow> jsval \<Rightarrow> conv option \<Rightarrow> error + tok list" where
  "valueGetterSingle prefix' propName (JOp key v hasChildValues isInOperator) fromModelFn =
     (if hasChildValues then
        (case js_index v I0 of Inl e \<Rightarrow> Inl e
         | Inr v0 \<Rightarrow>
            (case valueGetterSingle (Index (Value prefix') I0) propName v0 fromModelFn of
               Inl e \<Rightarrow> Inl e
             | Inr g0 \<Rightarrow>
                (case js_index v I1 of Inl e \<Rightarrow> Inl e
                 | Inr v1 \<Rightarrow>
                    (case valueGetterSingle (Index (Value prefix') I1) propName v1 fromModelFn of
                       Inl e \<Rightarrow> Inl e
                     | Inr g1 \<Rightarrow> Inr (g0 @ [Comma] @ g1)))))
      else if isInOperator \<and> fromModelFn \<noteq> None then Inr [Elem (MapEach (Value prefix') propName)]
      else if fromModelFn = None then Inr [Elem (Value prefix')]
      else Inr [Elem (getMappingFunctionCall propName (Value prefix'))])"
| "valueGetterSingle prefix' propName v fromModelFn =
     (if fromModelFn = None then Inr [Elem prefix']
      else Inr [Elem (getMappingFunctionCall propName prefix')])"
  by pat_completeness auto

termination
proof (relation "measure (\<lambda>p. size (fst (snd (snd p))))")
  have lk: "size (lookup kvs k) \<le> size_list (size_prod (\<lambda>_. 0) size) kvs" for kvs k
  proof (induction kvs)
    case Nil
    show ?case by (simp add: lookup_def)
  next
    case (Cons kv kvs)
    then show ?case by (cases kv) (auto simp: lookup_def split: option.splits)
  qed
  have nth: "i < length xs \<Longrightarrow> size (xs ! i) \<le> size_list size xs" for i and xs :: "jsval list"
  proof (induction xs arbitrary: i)
    case Nil
    then show ?case by simp
  next
    case (Cons x xs)
    then show ?case by (cases i) (auto intro: le_SucI trans_le_add2)
  qed
  have idx: "size x < Suc (size v)" if "js_index v i = Inr x" for v i x
  proof (cases v)
    case (JArr xs)
    with that show ?thesis using nth [of "idx_nat i" xs] by (auto split: if_splits)
  next
    case (JObj kvs)
    with that show ?thesis using lk [of kvs "idx_key i"] by auto
  qed (use that in \<open>auto split: if_splits\<close>)
  show "wf (measure (\<lambda>p. size (fst (snd (snd p)))))" by simp
  show "((e, pn, v0, fm), (e', pn', JOp key v hc isIn, fm')) \<in> measure (\<lambda>p. size (fst (snd (snd p))))"
    if "js_index v I0 = Inr v0" for e pn v0 fm e' pn' key v hc isIn fm'
    using idx [OF that] by simp
  show "((e, pn, v1, fm), (e', pn', JOp key v hc isIn, fm')) \<in> measure (\<lambda>p. size (fst (snd (snd p))))"
    if "js_index v I1 = Inr v1" for e pn v1 fm e' pn' key v hc isIn fm'
    using idx [OF that] by simp
qed

text \<open>\<open>_valueGetterExpression(propertiesInfo, objectName)\<close>; \<open>objectName\<close> defaults to \<open>doc\<close>.\<close>

definition valueGetterExpression :: "pinfo list \<Rightarrow> objname option \<Rightarrow> error + tok list" where
  "valueGetterExpression propertiesInfo objectName =
     (let objectName = (case objectName of None \<Rightarrow> DocObj | Some n \<Rightarrow> n) in
      case mapE (\<lambda>p. valueGetterSingle (Member objectName (propertyName p)) (propertyName p)
                        (val p) (fromModel p)) propertiesInfo of
        Inl e \<Rightarrow> Inl e
      | Inr gs \<Rightarrow> Inr (join [Comma] gs))"

text \<open>\<open>_assignmentGetterExpression(propertiesInfo, prefix)\<close>; \<open>prefix\<close> defaults to \<open>doc\<close>.\<close>

definition assignmentGetterExpression :: "pinfo list \<Rightarrow> objname option \<Rightarrow> tok list" where
  "assignmentGetterExpression propertiesInfo prefix' =
     (let prefix' = (case prefix' of None \<Rightarrow> DocObj | Some n \<Rightarrow> n) in
      join [Comma]
        (map (\<lambda>p.
           let valueGetter =
             (if isQueryAssignment (val p) then Value (Member prefix' (propertyName p))
              else Member prefix' (propertyName p))
           in if fromModel p \<noteq> None
              then [Elem (getMappingFunctionCall (propertyName p) valueGetter)]
              else [Elem valueGetter]) propertiesInfo))"

subsection \<open>SELECT\<close>

text \<open>
  \<open>getSelect(tableName, keyspace, propertiesInfo, fieldsInfo, orderByColumns, allowFilter,
  limit)\<close>, with \<open>allowFilter\<close> a Boolean. An item of \<open>orderByColumns\<close> is the pair
  \<open>[column, direction]\<close>.
\<close>

definition getSelect ::
  "string \<Rightarrow> string \<Rightarrow> pinfo list \<Rightarrow> pinfo list \<Rightarrow> (string \<times> string) list \<Rightarrow> bool \<Rightarrow> jsval
     \<Rightarrow> error + string" where
  "getSelect tableName keyspace propertiesInfo fieldsInfo orderByColumns allowFilter limit' =
     (let query = ''SELECT '';
          query = query @ (if length fieldsInfo > 0 then join '', '' (map columnName fieldsInfo)
                           else ''*'');
          query = query @ '' FROM '' @ keyspace @ ''.'' @ tableName
      in case (if length propertiesInfo > 0
               then (case getConditionWithOperators propertiesInfo of
                       Inl e \<Rightarrow> Inl e | Inr c \<Rightarrow> Inr (query @ '' WHERE '' @ c))
               else Inr query) of
           Inl e \<Rightarrow> Inl e
         | Inr query \<Rightarrow>
            (let query = (if length orderByColumns > 0
                          then query @ '' ORDER BY ''
                                 @ join '', '' (map (\<lambda>order. fst order @ '' '' @ snd order) orderByColumns)
                          else query);
                 query = (if isNumber limit' then query @ '' LIMIT ?'' else query)
             in Inr (query @ '' ALLOW FILTERING'')))"

text \<open>The tokens \<open>selectParamsGetter\<close> writes between \<open>return [\<close> and \<open>];\<close>.\<close>

definition selectParamsScript :: "pinfo list \<Rightarrow> jsval \<Rightarrow> error + tok list" where
  "selectParamsScript propertiesInfo limit' =
     (case valueGetterExpression propertiesInfo None of Inl e \<Rightarrow> Inl e
      | Inr scriptText \<Rightarrow>
          Inr (if isNumber limit'
               then (if length propertiesInfo > 0 then scriptText @ [Comma] else scriptText)
                      @ [Elem (DocInfoKey ''limit'')]
               else scriptText))"

text \<open>\<open>selectParamsGetter(propertiesInfo, limit)\<close>.\<close>

definition selectParamsGetter :: "pinfo list \<Rightarrow> jsval \<Rightarrow> error + getter" where
  "selectParamsGetter propertiesInfo limit' =
     (case selectParamsScript propertiesInfo limit' of Inl e \<Rightarrow> Inl e
      | Inr scriptText \<Rightarrow> runInThisContext (show_script ''getParametersSelect'' scriptText))"

subsection \<open>INSERT\<close>

text \<open>What the three mutating entry points return; UPDATE adds \<open>isCounter\<close>.\<close>

record statement =
  query :: string
  paramsGetter :: getter
  isIdempotent :: bool

record update_statement = statement +
  isCounter :: bool

text \<open>\<open>docInfo && docInfo.ttl\<close> and \<open>docInfo && docInfo.deleteOnlyColumns\<close>.\<close>

definition docInfoTtl :: "docinfo option \<Rightarrow> jsval" where
  "docInfoTtl docInfo = (case docInfo of None \<Rightarrow> JUndefined | Some d \<Rightarrow> ttl d)"

definition docInfoDeleteOnlyColumns :: "docinfo option \<Rightarrow> jsval" where
  "docInfoDeleteOnlyColumns docInfo =
     (case docInfo of None \<Rightarrow> JUndefined | Some d \<Rightarrow> deleteOnlyColumns d)"

text \<open>
  \<open>_getInsertQuery(tableName, keyspace, propertiesInfo, ifNotExists, ttl, allowFilter)\<close>.
  \<open>ifNotExists\<close> is a Boolean or \<open>undefined\<close> (\<open>None\<close>).
\<close>

definition getInsertQuery ::
  "string \<Rightarrow> string \<Rightarrow> pinfo list \<Rightarrow> bool option \<Rightarrow> jsval \<Rightarrow> bool \<Rightarrow> string" where
  "getInsertQuery tableName keyspace propertiesInfo ifNotExists ttl' allowFilter =
     (let query = ''INSERT INTO '' @ keyspace @ ''.'' @ tableName @ '' ('';
          query = query @ join '', '' (map columnName propertiesInfo);
          query = query @ '') VALUES ('';
          query = query @ join '', '' (map (\<lambda>_. ''?'') propertiesInfo);
          query = query @ '')'';
          query = (if ifNotExists = Some True then query @ '' IF NOT EXISTS'' else query);
          query = (if isNumber ttl' then query @ '' USING TTL ?'' else query)
      in query)"

text \<open>The tokens \<open>_insertParamsGetter\<close> writes between \<open>return [\<close> and \<open>];\<close>.\<close>

definition insertParamsScript :: "pinfo list \<Rightarrow> docinfo option \<Rightarrow> error + tok list" where
  "insertParamsScript propertiesInfo docInfo =
     (case valueGetterExpression propertiesInfo None of Inl e \<Rightarrow> Inl e
      | Inr scriptText \<Rightarrow>
          Inr (if (case docInfo of None \<Rightarrow> False | Some d \<Rightarrow> isNumber (ttl d))
               then scriptText @ [Comma, Elem (DocInfoKey ''ttl'')]
               else scriptText))"

text \<open>\<open>_insertParamsGetter(propertiesInfo, docInfo)\<close>.\<close>

definition insertParamsGetter :: "pinfo list \<Rightarrow> docinfo option \<Rightarrow> error + getter" where
  "insertParamsGetter propertiesInfo docInfo =
     (case insertParamsScript propertiesInfo docInfo of Inl e \<Rightarrow> Inl e
      | Inr scriptText \<Rightarrow> runInThisContext (show_script ''getParametersInsert'' scriptText))"

text \<open>\<open>getInsert(table, keyspace, propertiesInfo, docInfo, ifNotExists, allowFilter)\<close>.\<close>

definition getInsert ::
  "table \<Rightarrow> string \<Rightarrow> pinfo list \<Rightarrow> docinfo option \<Rightarrow> bool option \<Rightarrow> bool \<Rightarrow> error + statement" where
  "getInsert table keyspace propertiesInfo docInfo ifNotExists allowFilter =
     (let ttl' = docInfoTtl docInfo;
          filteredPropertiesInfo =
            filter (\<lambda>pInfo. columnByName table (columnName pInfo) \<noteq> NoEntry) propertiesInfo
      in case insertParamsGetter filteredPropertiesInfo docInfo of Inl e \<Rightarrow> Inl e
         | Inr g \<Rightarrow>
             Inr \<lparr> query = getInsertQuery (name table) keyspace filteredPropertiesInfo ifNotExists
                              ttl' allowFilter,
                   paramsGetter = g,
                   isIdempotent = (ifNotExists \<noteq> Some True) \<rparr>)"

subsection \<open>UPDATE\<close>

text \<open>
  \<open>new Set(table.partitionKeys.concat(table.clusteringKeys).map(c => c.name))\<close>.
\<close>

definition primaryKeysOf :: "table \<Rightarrow> string set" where
  "primaryKeysOf table = set (map cname (partitionKeys table @ clusteringKeys table))"

text \<open>
  The callback \<open>getUpdate\<close> gives to \<open>propertiesInfo.filter\<close>: it decides whether an item
  stays and, on the way, assigns \<open>isIdempotent\<close> and \<open>isCounter\<close>. The pair of flags is
  passed along the list, and the items that stay are returned with the flags at the end.
  On an inherited member \<open>column.type\<close> is \<open>undefined\<close>, and reading \<open>column.type.code\<close> is
  a TypeError.
\<close>

fun updateFilter ::
  "table \<Rightarrow> pinfo list \<Rightarrow> bool \<times> bool \<Rightarrow> error + pinfo list \<times> bool \<times> bool" where
  "updateFilter table [] (isIdempotent', isCounter') = Inr ([], isIdempotent', isCounter')"
| "updateFilter table (pInfo # ps) (isIdempotent', isCounter') =
     (case columnByName table (columnName pInfo) of
        NoEntry \<Rightarrow> updateFilter table ps (isIdempotent', isCounter')
      | InheritedEntry \<Rightarrow> Inl TypeError
      | ColumnEntry column \<Rightarrow>
          (case updateFilter table ps
                  (if code column = ListType \<and> isQueryAssignment (val pInfo)
                   then (False, isCounter')
                   else if code column = CounterType then (False, True)
                   else (isIdempotent', isCounter')) of
             Inl e \<Rightarrow> Inl e
           | Inr (fs, flags) \<Rightarrow> Inr (pInfo # fs, flags)))"

text \<open>
  \<open>_getUpdateQuery(tableName, keyspace, primaryKeys, propertiesInfo, when, ifExists,
  allowFilter, ttl)\<close>: \<open>allowFilter\<close> is the seventh parameter and \<open>ttl\<close> the eighth.
\<close>

definition getUpdateQuery ::
  "string \<Rightarrow> string \<Rightarrow> string set \<Rightarrow> pinfo list \<Rightarrow> pinfo list \<Rightarrow> bool option \<Rightarrow> jsval \<Rightarrow> jsval
     \<Rightarrow> error + string" where
  "getUpdateQuery tableName keyspace primaryKeys propertiesInfo when' ifExists allowFilter ttl' =
     (let query = ''UPDATE '' @ keyspace @ ''.'' @ tableName @ '' '';
          query = (if isNumber ttl' then query @ ''USING TTL ? '' else query);
          query = query @ ''SET '';
          query = query @ join '', ''
            (map (\<lambda>p.
               (case val p of
                  JAssign sign v inverted \<Rightarrow>
                    (if inverted then columnName p @ '' = ? '' @ sign @ '' '' @ columnName p
                     else columnName p @ '' = '' @ columnName p @ '' '' @ sign @ '' ?'')
                | _ \<Rightarrow> columnName p @ '' = ?''))
               (filter (\<lambda>p. columnName p \<notin> primaryKeys) propertiesInfo));
          query = query @ '' WHERE '';
          query = query @ join '' AND ''
            (map (\<lambda>p. columnName p @ '' = ?'')
               (filter (\<lambda>p. columnName p \<in> primaryKeys) propertiesInfo))
      in if ifExists = Some True then Inr (query @ '' IF EXISTS'')
         else if length when' > 0
         then (case getConditionWithOperators when' of Inl e \<Rightarrow> Inl e
               | Inr c \<Rightarrow> Inr (query @ '' IF '' @ c))
         else Inr query)"

text \<open>The tokens \<open>_updateParamsGetter\<close> writes between \<open>return [\<close> and \<open>];\<close>.\<close>

definition updateParamsScript ::
  "string set \<Rightarrow> pinfo list \<Rightarrow> pinfo list \<Rightarrow> jsval \<Rightarrow> error + tok list" where
  "updateParamsScript primaryKeys propertiesInfo when' ttl' =
     (let scriptText = (if isNumber ttl' then [Elem (DocInfoKey ''ttl''), Comma] else []);
          scriptText = scriptText @ assignmentGetterExpression
                         (filter (\<lambda>p. columnName p \<notin> primaryKeys) propertiesInfo) None;
          scriptText = scriptText @ [Comma]
      in case valueGetterExpression
                (filter (\<lambda>p. columnName p \<in> primaryKeys) propertiesInfo) None of
           Inl e \<Rightarrow> Inl e
         | Inr w \<Rightarrow>
            (let scriptText = scriptText @ w
             in if length when' > 0
                then (case valueGetterExpression when' (Some DocInfoWhen) of Inl e \<Rightarrow> Inl e
                      | Inr c \<Rightarrow> Inr (scriptText @ [Comma] @ c))
                else Inr scriptText))"

text \<open>\<open>_updateParamsGetter(primaryKeys, propertiesInfo, when, ttl)\<close>.\<close>

definition updateParamsGetter ::
  "string set \<Rightarrow> pinfo list \<Rightarrow> pinfo list \<Rightarrow> jsval \<Rightarrow> error + getter" where
  "updateParamsGetter primaryKeys propertiesInfo when' ttl' =
     (case updateParamsScript primaryKeys propertiesInfo when' ttl' of Inl e \<Rightarrow> Inl e
      | Inr scriptText \<Rightarrow> runInThisContext (show_script ''getParametersUpdate'' scriptText))"

text \<open>
  \<open>getUpdate(table, keyspace, propertiesInfo, docInfo, when, ifExists, allowFilter)\<close>, with
  \<open>allowFilter\<close> a Boolean. The call of \<open>_getUpdateQuery\<close> passes \<open>ttl\<close> as its seventh
  argument and \<open>allowFilter\<close> as its eighth, as the source does.
\<close>

definition getUpdate ::
  "table \<Rightarrow> string \<Rightarrow> pinfo list \<Rightarrow> docinfo option \<Rightarrow> pinfo list \<Rightarrow> bool option \<Rightarrow> bool
     \<Rightarrow> error + update_statement" where
  "getUpdate table keyspace propertiesInfo docInfo when' ifExists allowFilter =
     (let ttl' = docInfoTtl docInfo;
          primaryKeys = primaryKeysOf table
      in case updateFilter table propertiesInfo (True, False) of
           Inl e \<Rightarrow> Inl e
         | Inr (filteredPropertiesInfo, isIdempotent', isCounter') \<Rightarrow>
             (case getUpdateQuery (name table) keyspace primaryKeys filteredPropertiesInfo when'
                     ifExists ttl' (JBool allowFilter) of
                Inl e \<Rightarrow> Inl e
              | Inr q \<Rightarrow>
                 (case updateParamsGetter primaryKeys filteredPropertiesInfo when' ttl' of
                    Inl e \<Rightarrow> Inl e
                  | Inr g \<Rightarrow>
                      Inr \<lparr> query = q,
                            paramsGetter = g,
                            isIdempotent = (isIdempotent' \<and> length when' = 0 \<and> ifExists \<noteq> Some True),
                            isCounter = isCounter' \<rparr>)))"

subsection \<open>DELETE\<close>

text \<open>
  \<open>_getDeleteQuery(tableName, keyspace, primaryKeys, propertiesInfo, when, ifExists,
  deleteOnlyColumns)\<close>.
\<close>

definition getDeleteQuery ::
  "string \<Rightarrow> string \<Rightarrow> string set \<Rightarrow> pinfo list \<Rightarrow> pinfo list \<Rightarrow> bool option \<Rightarrow> jsval
     \<Rightarrow> error + string" where
  "getDeleteQuery tableName keyspace primaryKeys propertiesInfo when' ifExists deleteOnlyColumns' =
     (let query = ''DELETE'';
          query =
            (if truthy deleteOnlyColumns'
             then (let columnsToDelete = join '', ''
                         (map columnName
                            (filter (\<lambda>p. columnName p \<notin> primaryKeys) propertiesInfo))
                   in if columnsToDelete \<noteq> [] then query @ '' '' @ columnsToDelete else query)
             else query);
          query = query @ '' FROM '' @ keyspace @ ''.'' @ tableName @ '' WHERE '';
          query = query @ join '' AND ''
            (map (\<lambda>p. columnName p @ '' = ?'')
               (filter (\<lambda>p. columnName p \<in> primaryKeys) propertiesInfo))
      in if ifExists = Some True then Inr (query @ '' IF EXISTS'')
         else if length when' > 0
         then (case getConditionWithOperators when' of Inl e \<Rightarrow> Inl e
               | Inr c \<Rightarrow> Inr (query @ '' IF '' @ c))
         else Inr query)"

text \<open>The tokens \<open>_deleteParamsGetter\<close> writes between \<open>return [\<close> and \<open>];\<close>.\<close>

definition deleteParamsScript :: "string set \<Rightarrow> pinfo list \<Rightarrow> pinfo list \<Rightarrow> error + tok list" where
  "deleteParamsScript primaryKeys propertiesInfo when' =
     (case valueGetterExpression
             (filter (\<lambda>p. columnName p \<in> primaryKeys) propertiesInfo) None of
        Inl e \<Rightarrow> Inl e
      | Inr scriptText \<Rightarrow>
          (if length when' > 0
           then (case valueGetterExpression when' (Some DocInfoWhen) of Inl e \<Rightarrow> Inl e
                 | Inr c \<Rightarrow> Inr (scriptText @ [Comma] @ c))
           else Inr scriptText))"

text \<open>\<open>_deleteParamsGetter(primaryKeys, propertiesInfo, when)\<close>.\<close>

definition deleteParamsGetter :: "string set \<Rightarrow> pinfo list \<Rightarrow> pinfo list \<Rightarrow> error + getter" where
  "deleteParamsGetter primaryKeys propertiesInfo when' =
     (case deleteParamsScript primaryKeys propertiesInfo when' of Inl e \<Rightarrow> Inl e
      | Inr scriptText \<Rightarrow> runInThisContext (show_script ''getParametersDelete'' scriptText))"

text \<open>\<open>getDelete(table, keyspace, propertiesInfo, docInfo, when, ifExists)\<close>.\<close>

definition getDelete ::
  "table \<Rightarrow> string \<Rightarrow> pinfo list \<Rightarrow> docinfo option \<Rightarrow> pinfo list \<Rightarrow> bool option
     \<Rightarrow> error + statement" where
  "getDelete table keyspace propertiesInfo docInfo when' ifExists =
     (let deleteOnlyColumns' = docInfoDeleteOnlyColumns docInfo;
          primaryKeys = primaryKeysOf table;
          filteredPropertiesInfo =
            filter (\<lambda>pInfo. columnByName table (columnName pInfo) \<noteq> NoEntry) propertiesInfo
      in case getDeleteQuery (name table) keyspace primaryKeys filteredPropertiesInfo when'
                ifExists deleteOnlyColumns' of
           Inl e \<Rightarrow> Inl e
         | Inr q \<Rightarrow>
            (case deleteParamsGetter primaryKeys filteredPropertiesInfo when' of
               Inl e \<Rightarrow> Inl e
             | Inr g \<Rightarrow>
                 Inr \<lparr> query = q, paramsGetter = g,
                       isIdempotent = (length when' = 0 \<and> ifExists \<noteq> Some True) \<rparr>))"

subsection \<open>Vocabulary of the properties\<close>

text \<open>
  The definitions below are not functions of the source: they name what the properties
  speak about.
\<close>

text \<open>The query text and the parameters of a returned statement, or the error raised.\<close>

definition statementQuery :: "error + 'a statement_scheme \<Rightarrow> error + string" where
  "statementQuery res = (case res of Inl e \<Rightarrow> Inl e | Inr r \<Rightarrow> Inr (query r))"

definition statementGetter :: "error + 'a statement_scheme \<Rightarrow> error + getter" where
  "statementGetter res = (case res of Inl e \<Rightarrow> Inl e | Inr r \<Rightarrow> Inr (paramsGetter r))"

text \<open>Applying a getter, when there is one, to \<open>(doc, docInfo, mappingInfo)\<close>.\<close>

definition applyGetter ::
  "error + getter \<Rightarrow> obj \<Rightarrow> docinfo option \<Rightarrow> mappinginfo \<Rightarrow> error + slot list" where
  "applyGetter res doc docInfo mappingInfo =
     (case res of Inl e \<Rightarrow> Inl e | Inr g \<Rightarrow> g doc docInfo mappingInfo)"

text \<open>
  Compiling the script with the given function name and tokens, from its text, and running
  the function it gives.
\<close>

definition runScript ::
  "string \<Rightarrow> tok list \<Rightarrow> obj \<Rightarrow> docinfo option \<Rightarrow> mappinginfo \<Rightarrow> error + slot list" where
  "runScript fname ts doc docInfo mappingInfo =
     applyGetter (runInThisContext (show_script fname ts)) doc docInfo mappingInfo"

text \<open>Running the function that the tokens give.\<close>

definition runGetter :: "tok list \<Rightarrow> obj \<Rightarrow> docinfo option \<Rightarrow> mappinginfo \<Rightarrow> error + slot list" where
  "runGetter ts doc docInfo mappingInfo =
     applyGetter (evaluator ts) doc docInfo mappingInfo"

text \<open>
  A name that stands for itself between quotes: it holds no quote, no backslash, no line
  feed and no carriage return. The property names of a list of bindings are all such names.
\<close>

definition safeName :: "string \<Rightarrow> bool" where
  "safeName s = (\<forall>c \<in> set s. c \<noteq> CHR 0x27 \<and> c \<noteq> CHR 0x5C \<and> c \<noteq> CHR 0x0A \<and> c \<noteq> CHR 0x0D)"

definition safeNames :: "pinfo list \<Rightarrow> bool" where
  "safeNames ps = (\<forall>p \<in> set ps. safeName (propertyName p))"

text \<open>
  The expressions of the scripts that are read: paths, with names that stand for
  themselves, and the elements made of them.
\<close>

fun pathExpr :: "expr \<Rightarrow> bool" where
  "pathExpr (Member on p) = safeName p"
| "pathExpr (DocInfoKey k) = (k = ''ttl'' \<or> k = ''limit'')"
| "pathExpr (Value e) = pathExpr e"
| "pathExpr (Index e i) = pathExpr e"
| "pathExpr e = False"

fun scriptExpr :: "expr \<Rightarrow> bool" where
  "scriptExpr (MappingFunctionCall p e) = (safeName p \<and> pathExpr e)"
| "scriptExpr (MapEach e p) = (pathExpr e \<and> safeName p)"
| "scriptExpr e = pathExpr e"

fun scriptTok :: "tok \<Rightarrow> bool" where
  "scriptTok (Elem e) = scriptExpr e"
| "scriptTok Comma = True"

definition scriptToks :: "tok list \<Rightarrow> bool" where
  "scriptToks ts = (\<forall>t \<in> set ts. scriptTok t)"

text \<open>The string literals and characters of the text of an expression and of a token.\<close>

fun exprLexemes :: "expr \<Rightarrow> lexeme list" where
  "exprLexemes (Member on p) = map Ch (show_objname on @ ''['') @ [Str p, Ch (CHR '']'')]"
| "exprLexemes (DocInfoKey k) = map Ch ''docInfo['' @ [Str k, Ch (CHR '']'')]"
| "exprLexemes (Value e) = exprLexemes e @ map Ch ''.value''"
| "exprLexemes (Index e i) = exprLexemes e @ map Ch (''['' @ idx_key i @ '']'')"
| "exprLexemes (MappingFunctionCall p e) =
     map Ch ''mappingInfo.getFromModelFn('' @ [Str p] @ map Ch '')('' @ exprLexemes e
       @ [Ch (CHR '')'')]"
| "exprLexemes (MapEach e p) =
     exprLexemes e @ map Ch ''.map(v => mappingInfo.getFromModelFn('' @ [Str p]
       @ map Ch '')(v))''"

fun tokLexemes :: "tok \<Rightarrow> lexeme list" where
  "tokLexemes (Elem e) = exprLexemes e"
| "tokLexemes Comma = map Ch '', ''"

text \<open>The element expressions of a token sequence, in order.\<close>

fun exprs :: "tok list \<Rightarrow> expr list" where
  "exprs [] = []"
| "exprs (Elem e # ts) = e # exprs ts"
| "exprs (Comma # ts) = exprs ts"

text \<open>A token sequence \<open>e\<^sub>1, e\<^sub>2, ..., e\<^sub>n\<close> with \<open>n \<ge> 1\<close>: elements with one comma between them.\<close>

fun separated :: "tok list \<Rightarrow> bool" where
  "separated [Elem e] = True"
| "separated (Elem e # Comma # ts) = separated ts"
| "separated ts = False"

text \<open>A text with no \<open>?\<close> in it.\<close>

definition noPlaceholder :: "string \<Rightarrow> bool" where
  "noPlaceholder s = (CHR ''?'' \<notin> set s)"

text \<open>No operator symbol and no assignment sign inside a value contains \<open>?\<close>.\<close>

fun keysPlain :: "jsval \<Rightarrow> bool" where
  "keysPlain (JOp key v hc isIn) = (noPlaceholder key \<and> keysPlain v)"
| "keysPlain (JArr xs) = (\<forall>x \<in> set xs. keysPlain x)"
| "keysPlain (JObj kvs) = (\<forall>kv \<in> set kvs. keysPlain (snd kv))"
| "keysPlain (JAssign sign v iv) = (noPlaceholder sign \<and> keysPlain v)"
| "keysPlain v = True"

definition plainBinding :: "pinfo \<Rightarrow> bool" where
  "plainBinding p = (noPlaceholder (columnName p) \<and> keysPlain (val p))"

text \<open>A value that is an operator with child values (a composite comparison).\<close>

fun hasChildren :: "jsval \<Rightarrow> bool" where
  "hasChildren (JOp key v hc isIn) = hc"
| "hasChildren v = False"

text \<open>
  The bindings that survive the filter of the source on the schema, that is, those for which
  \<open>table.columnsByName[columnName]\<close> is not \<open>undefined\<close>, and among them the mutated ones
  (not on a primary key column) and the identifying ones (on a primary key column).
\<close>

definition surviving :: "table \<Rightarrow> pinfo list \<Rightarrow> pinfo list" where
  "surviving table propertiesInfo =
     filter (\<lambda>pInfo. columnByName table (columnName pInfo) \<noteq> NoEntry) propertiesInfo"

definition mutated :: "table \<Rightarrow> pinfo list \<Rightarrow> pinfo list" where
  "mutated table propertiesInfo =
     filter (\<lambda>p. columnName p \<notin> primaryKeysOf table) (surviving table propertiesInfo)"

definition identifying :: "table \<Rightarrow> pinfo list \<Rightarrow> pinfo list" where
  "identifying table propertiesInfo =
     filter (\<lambda>p. columnName p \<in> primaryKeysOf table) (surviving table propertiesInfo)"

text \<open>
  A construction of one of the four statement kinds with its arguments, the query text it
  yields and the paired extraction routine. For SELECT the pair is \<open>getSelect\<close> and
  \<open>selectParamsGetter\<close> on the same bindings and limit.
\<close>

datatype construction =
    Select string string "pinfo list" "pinfo list" "(string \<times> string) list" bool jsval
  | Insert table string "pinfo list" "docinfo option" "bool option" bool
  | Update table string "pinfo list" "docinfo option" "pinfo list" "bool option" bool
  | Delete table string "pinfo list" "docinfo option" "pinfo list" "bool option"

fun queryText :: "construction \<Rightarrow> error + string" where
  "queryText (Select tn ks ps fs ob af lim) = getSelect tn ks ps fs ob af lim"
| "queryText (Insert t ks ps di ine af) = statementQuery (getInsert t ks ps di ine af)"
| "queryText (Update t ks ps di w ie af) = statementQuery (getUpdate t ks ps di w ie af)"
| "queryText (Delete t ks ps di w ie) = statementQuery (getDelete t ks ps di w ie)"

fun extractionRoutine :: "construction \<Rightarrow> error + getter" where
  "extractionRoutine (Select tn ks ps fs ob af lim) = selectParamsGetter ps lim"
| "extractionRoutine (Insert t ks ps di ine af) = statementGetter (getInsert t ks ps di ine af)"
| "extractionRoutine (Update t ks ps di w ie af) = statementGetter (getUpdate t ks ps di w ie af)"
| "extractionRoutine (Delete t ks ps di w ie) = statementGetter (getDelete t ks ps di w ie)"

text \<open>
  The constructions on which the placeholders and the extracted values are counted alike:
  \<^item> no table name, keyspace, column name, ordering item, operator symbol or assignment sign
    contains \<open>?\<close>;
  \<^item> no INSERT binding and no identifying binding carries a composite comparison;
  \<^item> the scripts have no elision: an INSERT with a numeric time-to-live keeps a binding, an
    UPDATE has a mutated binding, an UPDATE or DELETE with conditions has an identifying
    binding;
  \<^item> conditions are not combined with \<open>ifExists = true\<close>;
  \<^item> an UPDATE carries no numeric time-to-live;
  \<^item> the property names of the bindings that the script reads stand for themselves
    between quotes.
\<close>

fun regular :: "construction \<Rightarrow> bool" where
  "regular (Select tn ks ps fs ob af lim) =
     (noPlaceholder tn \<and> noPlaceholder ks \<and> (\<forall>f \<in> set fs. noPlaceholder (columnName f))
      \<and> (\<forall>order \<in> set ob. noPlaceholder (fst order) \<and> noPlaceholder (snd order))
      \<and> (\<forall>p \<in> set ps. plainBinding p)
      \<and> safeNames ps)"
| "regular (Insert t ks ps di ine af) =
     (noPlaceholder ks \<and> noPlaceholder (name t)
      \<and> (\<forall>p \<in> set (surviving t ps). noPlaceholder (columnName p) \<and> \<not> hasChildren (val p))
      \<and> (isNumber (docInfoTtl di) \<longrightarrow> surviving t ps \<noteq> [])
      \<and> safeNames (surviving t ps))"
| "regular (Update t ks ps di w ie af) =
     (\<not> isNumber (docInfoTtl di)
      \<and> noPlaceholder ks \<and> noPlaceholder (name t)
      \<and> (\<forall>p \<in> set (surviving t ps). plainBinding p)
      \<and> (\<forall>p \<in> set (identifying t ps). \<not> hasChildren (val p))
      \<and> (\<forall>p \<in> set w. plainBinding p)
      \<and> mutated t ps \<noteq> []
      \<and> (w \<noteq> [] \<longrightarrow> identifying t ps \<noteq> [] \<and> ie \<noteq> Some True)
      \<and> safeNames (surviving t ps) \<and> safeNames w)"
| "regular (Delete t ks ps di w ie) =
     (noPlaceholder ks \<and> noPlaceholder (name t)
      \<and> (\<forall>p \<in> set (surviving t ps). noPlaceholder (columnName p))
      \<and> (\<forall>p \<in> set (identifying t ps). \<not> hasChildren (val p))
      \<and> (\<forall>p \<in> set w. plainBinding p)
      \<and> (w \<noteq> [] \<longrightarrow> identifying t ps \<noteq> [] \<and> ie \<noteq> Some True)
      \<and> safeNames (identifying t ps) \<and> safeNames w)"

text \<open>
  The property names that a construction writes into its script stand for themselves
  between quotes.
\<close>

fun safeConstruction :: "construction \<Rightarrow> bool" where
  "safeConstruction (Select tn ks ps fs ob af lim) = safeNames ps"
| "safeConstruction (Insert t ks ps di ine af) = safeNames (surviving t ps)"
| "safeConstruction (Update t ks ps di w ie af) = (safeNames (surviving t ps) \<and> safeNames w)"
| "safeConstruction (Delete t ks ps di w ie) = (safeNames (identifying t ps) \<and> safeNames w)"

text \<open>The idempotence flag of a returned statement, or the error raised.\<close>

definition statementIdempotent :: "error + 'a statement_scheme \<Rightarrow> error + bool" where
  "statementIdempotent res = (case res of Inl e \<Rightarrow> Inl e | Inr r \<Rightarrow> Inr (isIdempotent r))"

text \<open>
  A binding on a column of the table that is a counter, and a binding of an assignment
  (append, prepend) on a column of the table that is a list.
\<close>

definition targetsCounter :: "table \<Rightarrow> pinfo \<Rightarrow> bool" where
  "targetsCounter table p =
     (case columnByName table (columnName p) of
        ColumnEntry column \<Rightarrow> code column = CounterType
      | _ \<Rightarrow> False)"

definition assignsToList :: "table \<Rightarrow> pinfo \<Rightarrow> bool" where
  "assignsToList table p =
     (case columnByName table (columnName p) of
        ColumnEntry column \<Rightarrow> code column = ListType \<and> isQueryAssignment (val p)
      | _ \<Rightarrow> False)"

text \<open>The parameters one binding contributes, read from the object named \<open>objectName\<close>.\<close>

definition bindingParams ::
  "objname \<Rightarrow> pinfo \<Rightarrow> obj \<Rightarrow> docinfo option \<Rightarrow> mappinginfo \<Rightarrow> error + slot list" where
  "bindingParams objectName p doc docInfo mappingInfo =
     (case valueGetterSingle (Member objectName (propertyName p)) (propertyName p) (val p)
             (fromModel p) of
        Inl e \<Rightarrow> Inl e
      | Inr ts \<Rightarrow> runGetter ts doc docInfo mappingInfo)"

text \<open>The concatenation of the lists returned by fallible steps, run from left to right.\<close>

definition concatE :: "('a \<Rightarrow> error + 'b list) \<Rightarrow> 'a list \<Rightarrow> error + 'b list" where
  "concatE f xs = (case mapE f xs of Inl e \<Rightarrow> Inl e | Inr ys \<Rightarrow> Inr (concat ys))"

text \<open>No operator without child values inside a value is flagged as a membership test.\<close>

fun noMembership :: "jsval \<Rightarrow> bool" where
  "noMembership (JOp key v hc isIn) = ((hc \<or> \<not> isIn) \<and> noMembership v)"
| "noMembership (JArr xs) = (\<forall>x \<in> set xs. noMembership x)"
| "noMembership (JObj kvs) = (\<forall>kv \<in> set kvs. noMembership (snd kv))"
| "noMembership v = True"

text \<open>An element of a script with the conversion of a property applied to it.\<close>

fun convertTok :: "string \<Rightarrow> tok \<Rightarrow> tok" where
  "convertTok pn (Elem x) = Elem (MappingFunctionCall pn x)"
| "convertTok pn Comma = Comma"

text \<open>\<open>Array.isArray\<close>.\<close>

fun isArray :: "jsval \<Rightarrow> bool" where
  "isArray (JArr xs) = True"
| "isArray v = False"

text \<open>
  A well-formed value: every operator with child values inside it holds its children in a
  value that is neither \<open>undefined\<close> nor \<open>null\<close>, and every membership test holds an array.
\<close>

fun wellFormed :: "jsval \<Rightarrow> bool" where
  "wellFormed (JOp key v hc isIn) =
     ((hc \<longrightarrow> v \<noteq> JUndefined \<and> v \<noteq> JNull) \<and> (\<not> hc \<and> isIn \<longrightarrow> isArray v) \<and> wellFormed v)"
| "wellFormed (JArr xs) = (\<forall>x \<in> set xs. wellFormed x)"
| "wellFormed (JObj kvs) = (\<forall>kv \<in> set kvs. wellFormed (snd kv))"
| "wellFormed v = True"

text \<open>
  A construction whose binding values, as far as they are read, are well-formed; for an
  UPDATE, moreover, no binding is on a name that the table only inherits, where reading the
  type of the column raises a TypeError.
\<close>

fun wellFormedConstruction :: "construction \<Rightarrow> bool" where
  "wellFormedConstruction (Select tn ks ps fs ob af lim) = (\<forall>p \<in> set ps. wellFormed (val p))"
| "wellFormedConstruction (Insert t ks ps di ine af) =
     (\<forall>p \<in> set (surviving t ps). wellFormed (val p))"
| "wellFormedConstruction (Update t ks ps di w ie af) =
     ((\<forall>p \<in> set (surviving t ps). wellFormed (val p)) \<and> (\<forall>p \<in> set w. wellFormed (val p))
      \<and> (\<forall>p \<in> set ps. columnByName t (columnName p) \<noteq> InheritedEntry))"
| "wellFormedConstruction (Delete t ks ps di w ie) =
     ((\<forall>p \<in> set (surviving t ps). wellFormed (val p)) \<and> (\<forall>p \<in> set w. wellFormed (val p)))"

text \<open>
  A registry that converts a binding: when the binding needs conversion, a function is
  registered under its property name and returns on every value.
\<close>

definition convertsBinding :: "mappinginfo \<Rightarrow> pinfo \<Rightarrow> bool" where
  "convertsBinding mappingInfo p =
     (fromModel p \<noteq> None \<longrightarrow>
        (\<exists>g. mappingInfo (propertyName p) = Some g \<and> (\<forall>x. \<exists>y. g x = Inr y)))"

text \<open>
  The arguments of a getter carry a construction: the document holds, under the property
  name of each binding that is read, the value of the binding; the options are there when
  the script reads the time-to-live or the limit; and the options hold the object of
  conditions, with the value of each condition under its property name.
\<close>

definition carriesWhen :: "pinfo list \<Rightarrow> docinfo option \<Rightarrow> bool" where
  "carriesWhen w docInfo =
     (w \<noteq> [] \<longrightarrow>
        (case docInfo of None \<Rightarrow> False
         | Some d \<Rightarrow> (case when d of None \<Rightarrow> False
                      | Some obj \<Rightarrow> \<forall>p \<in> set w. lookup obj (propertyName p) = val p)))"

fun carries :: "construction \<Rightarrow> obj \<Rightarrow> docinfo option \<Rightarrow> bool" where
  "carries (Select tn ks ps fs ob af lim) doc docInfo =
     ((\<forall>p \<in> set ps. lookup doc (propertyName p) = val p) \<and> (isNumber lim \<longrightarrow> docInfo \<noteq> None))"
| "carries (Insert t ks ps di ine af) doc docInfo =
     ((\<forall>p \<in> set (surviving t ps). lookup doc (propertyName p) = val p)
      \<and> (isNumber (docInfoTtl di) \<longrightarrow> docInfo \<noteq> None))"
| "carries (Update t ks ps di w ie af) doc docInfo =
     ((\<forall>p \<in> set (surviving t ps). lookup doc (propertyName p) = val p)
      \<and> (isNumber (docInfoTtl di) \<longrightarrow> docInfo \<noteq> None) \<and> carriesWhen w docInfo)"
| "carries (Delete t ks ps di w ie) doc docInfo =
     ((\<forall>p \<in> set (surviving t ps). lookup doc (propertyName p) = val p) \<and> carriesWhen w docInfo)"

text \<open>A registry that converts every binding of a construction.\<close>

fun converts :: "construction \<Rightarrow> mappinginfo \<Rightarrow> bool" where
  "converts (Select tn ks ps fs ob af lim) mappingInfo = (\<forall>p \<in> set ps. convertsBinding mappingInfo p)"
| "converts (Insert t ks ps di ine af) mappingInfo =
     (\<forall>p \<in> set (surviving t ps). convertsBinding mappingInfo p)"
| "converts (Update t ks ps di w ie af) mappingInfo =
     ((\<forall>p \<in> set (surviving t ps). convertsBinding mappingInfo p)
      \<and> (\<forall>p \<in> set w. convertsBinding mappingInfo p))"
| "converts (Delete t ks ps di w ie) mappingInfo =
     ((\<forall>p \<in> set (surviving t ps). convertsBinding mappingInfo p)
      \<and> (\<forall>p \<in> set w. convertsBinding mappingInfo p))"

text \<open>
  For each parameter of a value, in order, whether it is the array of a membership test.
\<close>

function (sequential) membership :: "jsval \<Rightarrow> bool list" where
  "membership (JOp key v hasChildValues isInOperator) =
     (if hasChildValues then
        (case js_index v I0 of Inl e \<Rightarrow> []
         | Inr v0 \<Rightarrow>
            (case js_index v I1 of Inl e \<Rightarrow> []
             | Inr v1 \<Rightarrow> membership v0 @ membership v1))
      else [isInOperator])"
| "membership v = [False]"
  by pat_completeness auto

termination
proof (relation "measure size")
  have lk: "size (lookup kvs k) \<le> size_list (size_prod (\<lambda>_. 0) size) kvs" for kvs k
  proof (induction kvs)
    case Nil
    show ?case by (simp add: lookup_def)
  next
    case (Cons kv kvs)
    then show ?case by (cases kv) (auto simp: lookup_def split: option.splits)
  qed
  have nth: "i < length xs \<Longrightarrow> size (xs ! i) \<le> size_list size xs" for i and xs :: "jsval list"
  proof (induction xs arbitrary: i)
    case Nil
    then show ?case by simp
  next
    case (Cons x xs)
    then show ?case by (cases i) (auto intro: le_SucI trans_le_add2)
  qed
  have idx: "size x < Suc (size v)" if "js_index v i = Inr x" for v i x
  proof (cases v)
    case (JArr xs)
    with that show ?thesis using nth [of "idx_nat i" xs] by (auto split: if_splits)
  next
    case (JObj kvs)
    with that show ?thesis using lk [of kvs "idx_key i"] by auto
  qed (use that in \<open>auto split: if_splits\<close>)
  show "wf (measure size)" by simp
  show "(v0, JOp key v hc isIn) \<in> measure size"
    if "js_index v I0 = Inr v0" for key v hc isIn v0
    using idx [OF that] by simp
  show "(v1, JOp key v hc isIn) \<in> measure size"
    if "js_index v I1 = Inr v1" for key v hc isIn v1
    using idx [OF that] by simp
qed

text \<open>
  A parameter converted by the function \<open>g\<close>: the function applied to the value, or, for the
  array of a membership test, to each of its elements in order.
\<close>

fun convertParam :: "conv \<Rightarrow> bool \<times> slot \<Rightarrow> error + slot" where
  "convertParam g (isIn, None) = Inr None"
| "convertParam g (False, Some x) = (case g x of Inl e \<Rightarrow> Inl e | Inr y \<Rightarrow> Inr (Some y))"
| "convertParam g (True, Some (JArr xs)) =
     (case mapE g xs of Inl e \<Rightarrow> Inl e | Inr ys \<Rightarrow> Inr (Some (JArr ys)))"
| "convertParam g (True, Some x) = Inl TypeError"

subsection \<open>Example inputs\<close>

text \<open>
  A table \<open>ks.t\<close> with the partition key \<open>id\<close> and the regular column \<open>name\<close>, two property
  descriptors for it, and execution options with a time-to-live of 60.
\<close>

definition exTable :: table where
  "exTable = \<lparr> name = ''t'',
       columnsByName = [''id'' \<mapsto> \<lparr>cname = ''id'', code = OtherType 9\<rparr>,
                        ''name'' \<mapsto> \<lparr>cname = ''name'', code = OtherType 13\<rparr>],
       partitionKeys = [\<lparr>cname = ''id'', code = OtherType 9\<rparr>],
       clusteringKeys = [] \<rparr>"

definition exId :: pinfo where
  "exId = \<lparr>propertyName = ''id'', columnName = ''id'', val = JNum 5, fromModel = None\<rparr>"

definition exName :: pinfo where
  "exName = \<lparr>propertyName = ''name'', columnName = ''name'', val = JStr ''x'', fromModel = None\<rparr>"

definition exDocInfo :: docinfo where
  "exDocInfo = \<lparr>ttl = JNum 60, limit = JUndefined, when = None, deleteOnlyColumns = JUndefined\<rparr>"

definition exDoc :: obj where
  "exDoc = [(''id'', JNum 5), (''name'', JStr ''x'')]"

text \<open>
  Options with conditions on \<open>name\<close> and a limit, an empty conversion registry, a binding
  with a composite comparison and one with an assignment, and documents that carry them.
\<close>

definition exWhenInfo :: docinfo where
  "exWhenInfo = \<lparr>ttl = JUndefined, limit = JNum 10, when = Some [(''name'', JStr ''x'')],
                  deleteOnlyColumns = JUndefined\<rparr>"

definition exMapping :: mappinginfo where
  "exMapping = (\<lambda>p. None)"

definition exBetween :: pinfo where
  "exBetween = \<lparr>propertyName = ''id'', columnName = ''id'',
     val = JOp ''AND'' (JArr [JOp ''>'' (JNum 1) False False, JOp ''<'' (JNum 9) False False]) True False,
     fromModel = None\<rparr>"

definition exBetweenDoc :: obj where
  "exBetweenDoc = [(''id'', JOp ''AND'' (JArr [JOp ''>'' (JNum 1) False False, JOp ''<'' (JNum 9) False False]) True False)]"

definition exIncr :: pinfo where
  "exIncr = \<lparr>propertyName = ''name'', columnName = ''name'', val = JAssign ''+'' (JNum 1) False,
              fromModel = None\<rparr>"

definition exIncrDoc :: obj where
  "exIncrDoc = [(''id'', JNum 5), (''name'', JAssign ''+'' (JNum 1) False)]"

text \<open>
  A table whose partition key \<open>path\<close> is a (frozen) list, and a binding of an assignment on it.
\<close>

definition exListKeyTable :: table where
  "exListKeyTable = \<lparr> name = ''t'',
       columnsByName = [''path'' \<mapsto> \<lparr>cname = ''path'', code = ListType\<rparr>,
                        ''name'' \<mapsto> \<lparr>cname = ''name'', code = OtherType 13\<rparr>],
       partitionKeys = [\<lparr>cname = ''path'', code = ListType\<rparr>],
       clusteringKeys = [] \<rparr>"

definition exPath :: pinfo where
  "exPath = \<lparr>propertyName = ''path'', columnName = ''path'',
              val = JAssign ''+'' (JArr [JStr ''a'']) False, fromModel = None\<rparr>"

text \<open>Options that restrict a deletion to the bound columns.\<close>

definition exOnlyColumns :: docinfo where
  "exOnlyColumns = \<lparr>ttl = JUndefined, limit = JUndefined, when = None,
                     deleteOnlyColumns = JBool True\<rparr>"

text \<open>
  A binding on a column that \<open>exTable\<close> does not have, and a document with its property.
\<close>

definition exGhost :: pinfo where
  "exGhost = \<lparr>propertyName = ''ghost'', columnName = ''ghost'', val = JNum 7, fromModel = None\<rparr>"

definition exGhostDoc :: obj where
  "exGhostDoc = [(''id'', JNum 5), (''name'', JStr ''x''), (''ghost'', JNum 7)]"

text \<open>
  A comparison \<open>> 1\<close>, a composite comparison \<open>< 9 AND != 5\<close>, and a document whose property
  \<open>id\<close> holds the composite of the two.
\<close>

definition exLower :: jsval where
  "exLower = JOp ''>'' (JNum 1) False False"

definition exUpper :: jsval where
  "exUpper = JOp ''AND'' (JArr [JOp ''<'' (JNum 9) False False, JOp ''!='' (JNum 5) False False])
               True False"

definition exNestedDoc :: obj where
  "exNestedDoc = [(''id'', JOp ''AND'' (JArr [exLower, exUpper]) True False)]"

text \<open>
  A conversion that appends \<open>!\<close> to a string, registered for the property \<open>tags\<close>, a binding
  of \<open>tags\<close> with a membership test that needs conversion, and a document that carries it.
\<close>

definition exSuffix :: "jsval \<Rightarrow> jsval" where
  "exSuffix v = (case v of JStr s \<Rightarrow> JStr (s @ ''!'') | _ \<Rightarrow> v)"

definition exConv :: conv where
  "exConv v = Inr (exSuffix v)"

definition exRegistry :: mappinginfo where
  "exRegistry p = (if p = ''tags'' then Some exConv else None)"

definition exTags :: pinfo where
  "exTags = \<lparr>propertyName = ''tags'', columnName = ''tags'',
              val = JOp ''IN'' (JArr [JStr ''a'', JStr ''b'']) False True, fromModel = Some exConv\<rparr>"

definition exTagsDoc :: obj where
  "exTagsDoc = [(''tags'', JOp ''IN'' (JArr [JStr ''a'', JStr ''b'']) False True)]"

text \<open>
  A binding on \<open>constructor\<close>, a column that \<open>exTable\<close> does not have and a name that every
  object inherits, and a document with its property.
\<close>

definition exConstructor :: pinfo where
  "exConstructor = \<lparr>propertyName = ''constructor'', columnName = ''constructor'',
                     val = JStr ''x'', fromModel = None\<rparr>"

definition exConstructorDoc :: obj where
  "exConstructorDoc = [(''id'', JNum 5), (''constructor'', JStr ''x'')]"

text \<open>
  A comparison \<open>> 'a'\<close>, a membership test \<open>IN ['b', 'c']\<close>, and a document whose property
  \<open>tags\<close> holds the composite of the two.
\<close>

definition exAbove :: jsval where
  "exAbove = JOp ''>'' (JStr ''a'') False False"

definition exAmong :: jsval where
  "exAmong = JOp ''IN'' (JArr [JStr ''b'', JStr ''c'']) False True"

definition exRangeDoc :: obj where
  "exRangeDoc = [(''tags'', JOp ''AND'' (JArr [exAbove, exAmong]) True False)]"

text \<open>
  Two bindings on \<open>id\<close> whose property names hold a quote: \<open>o'k\<close> and \<open>a'], doc['b\<close>.
\<close>

definition exQuoted :: pinfo where
  "exQuoted = \<lparr>propertyName = ''o'' @ [CHR 0x27] @ ''k'', columnName = ''id'', val = JNum 1,
                fromModel = None\<rparr>"

definition exSpliced :: pinfo where
  "exSpliced = \<lparr>propertyName = ''a'' @ [CHR 0x27] @ ''], doc['' @ [CHR 0x27] @ ''b'',
                 columnName = ''id'', val = JNum 1, fromModel = None\<rparr>"

section \<open>Properties\<close>

lemmas ex_defs = exTable_def exId_def exName_def exDocInfo_def exDoc_def exWhenInfo_def
  exMapping_def exBetween_def exBetweenDoc_def exIncr_def exIncrDoc_def exListKeyTable_def
  exPath_def exOnlyColumns_def exConstructor_def exConstructorDoc_def exAbove_def exAmong_def
  exRangeDoc_def
  exGhost_def exGhostDoc_def exLower_def exUpper_def exNestedDoc_def exSuffix_def exConv_def
  exRegistry_def exTags_def exTagsDoc_def

subsection \<open>Reading back the scripts that the generator writes\<close>

text \<open>
  When the names stand for themselves between quotes, the text of a script reads back as the
  tokens it was written from, so that \<open>runInThisContext\<close> gives the function of these tokens.
\<close>

lemma scan_plain:
  "\<forall>c \<in> set s. plainChar c \<Longrightarrow> scanScript None rest = Inr ls \<Longrightarrow>
     scanScript None (s @ rest) = Inr (map Ch s @ ls)"
  by (induction s) (auto simp: plainChar_def)

lemma scan_string:
  "safeName n \<Longrightarrow> scanScript None rest = Inr ls \<Longrightarrow>
     scanScript (Some acc) (n @ CHR 0x27 # rest) = Inr (Str (acc @ n) # ls)"
  by (induction n arbitrary: acc) (auto simp: safeName_def)

lemma scan_quoted:
  "safeName n \<Longrightarrow> scanScript None rest = Inr ls \<Longrightarrow>
     scanScript None ([CHR 0x27] @ n @ [CHR 0x27] @ rest) = Inr (Str n # ls)"
  using scan_string [of n rest ls "[]"] by simp

lemma scan_path:
  "pathExpr e \<Longrightarrow> scanScript None rest = Inr ls \<Longrightarrow>
     scanScript None (show_expr e @ rest) = Inr (exprLexemes e @ ls)"
proof (induction e arbitrary: rest ls)
  case (Member on p)
  have 1: "scanScript None ('']'' @ rest) = Inr (map Ch '']'' @ ls)"
    by (rule scan_plain [OF _ Member.prems(2)]) (simp add: plainChar_def)
  have 2: "scanScript None ([CHR 0x27] @ p @ [CHR 0x27] @ '']'' @ rest)
             = Inr (Str p # map Ch '']'' @ ls)"
    using Member.prems(1) by (intro scan_quoted [OF _ 1]) simp
  have "scanScript None ((show_objname on @ ''['') @ [CHR 0x27] @ p @ [CHR 0x27] @ '']'' @ rest)
          = Inr (map Ch (show_objname on @ ''['') @ Str p # map Ch '']'' @ ls)"
    by (rule scan_plain [OF _ 2]) (cases on; simp add: plainChar_def)
  then show ?case by simp
next
  case (DocInfoKey k)
  have 1: "scanScript None ('']'' @ rest) = Inr (map Ch '']'' @ ls)"
    by (rule scan_plain [OF _ DocInfoKey.prems(2)]) (simp add: plainChar_def)
  have "safeName k" using DocInfoKey.prems(1) by (auto simp: safeName_def)
  then have 2: "scanScript None ([CHR 0x27] @ k @ [CHR 0x27] @ '']'' @ rest)
             = Inr (Str k # map Ch '']'' @ ls)"
    by (intro scan_quoted [OF _ 1])
  have "scanScript None (''docInfo['' @ [CHR 0x27] @ k @ [CHR 0x27] @ '']'' @ rest)
          = Inr (map Ch ''docInfo['' @ Str k # map Ch '']'' @ ls)"
    by (rule scan_plain [OF _ 2]) (simp add: plainChar_def)
  then show ?case by simp
next
  case (Value e)
  have 1: "scanScript None (''.value'' @ rest) = Inr (map Ch ''.value'' @ ls)"
    by (rule scan_plain [OF _ Value.prems(2)]) (simp add: plainChar_def)
  from Value.IH [OF _ 1] Value.prems(1) show ?case by simp
next
  case (Index e i)
  have 1: "scanScript None ((''['' @ idx_key i @ '']'') @ rest)
             = Inr (map Ch (''['' @ idx_key i @ '']'') @ ls)"
    by (rule scan_plain [OF _ Index.prems(2)]) (cases i; simp add: plainChar_def)
  from Index.IH [OF _ 1] Index.prems(1) show ?case by simp
qed simp_all

lemma scriptExpr_cases:
  assumes "scriptExpr e"
  obtains (path) "pathExpr e"
    | (call) p x where "e = MappingFunctionCall p x" "safeName p" "pathExpr x"
    | (each) x p where "e = MapEach x p" "safeName p" "pathExpr x"
  using assms by (cases e) auto

lemma scan_expr:
  assumes "scriptExpr e" and "scanScript None rest = Inr ls"
  shows "scanScript None (show_expr e @ rest) = Inr (exprLexemes e @ ls)"
  using assms(1)
proof (cases rule: scriptExpr_cases)
  case path
  then show ?thesis by (rule scan_path) (rule assms(2))
next
  case (call p x)
  note p = call(2) and x = call(3)
  have 1: "scanScript None ('')'' @ rest) = Inr (map Ch '')'' @ ls)"
    by (rule scan_plain [OF _ assms(2)]) (simp add: plainChar_def)
  have 2: "scanScript None (show_expr x @ '')'' @ rest) = Inr (exprLexemes x @ map Ch '')'' @ ls)"
    by (rule scan_path [OF x 1])
  have 3: "scanScript None ('')('' @ show_expr x @ '')'' @ rest)
             = Inr (map Ch '')('' @ exprLexemes x @ map Ch '')'' @ ls)"
    by (rule scan_plain [OF _ 2]) (simp add: plainChar_def)
  have 4: "scanScript None ([CHR 0x27] @ p @ [CHR 0x27] @ '')('' @ show_expr x @ '')'' @ rest)
             = Inr (Str p # map Ch '')('' @ exprLexemes x @ map Ch '')'' @ ls)"
    by (rule scan_quoted [OF p 3])
  have "scanScript None (''mappingInfo.getFromModelFn('' @ [CHR 0x27] @ p @ [CHR 0x27] @ '')(''
            @ show_expr x @ '')'' @ rest)
          = Inr (map Ch ''mappingInfo.getFromModelFn('' @ Str p # map Ch '')('' @ exprLexemes x
                   @ map Ch '')'' @ ls)"
    by (rule scan_plain [OF _ 4]) (simp add: plainChar_def)
  with call(1) show ?thesis by simp
next
  case (each x p)
  note p = each(2) and x = each(3)
  have 1: "scanScript None ('')(v))'' @ rest) = Inr (map Ch '')(v))'' @ ls)"
    by (rule scan_plain [OF _ assms(2)]) (simp add: plainChar_def)
  have 2: "scanScript None ([CHR 0x27] @ p @ [CHR 0x27] @ '')(v))'' @ rest)
             = Inr (Str p # map Ch '')(v))'' @ ls)"
    by (rule scan_quoted [OF p 1])
  have 3: "scanScript None (''.map(v => mappingInfo.getFromModelFn('' @ [CHR 0x27] @ p @ [CHR 0x27]
             @ '')(v))'' @ rest)
             = Inr (map Ch ''.map(v => mappingInfo.getFromModelFn('' @ Str p # map Ch '')(v))'' @ ls)"
    by (rule scan_plain [OF _ 2]) (simp add: plainChar_def)
  from scan_path [OF x 3] each(1) show ?thesis by simp
qed

lemma scan_tokens:
  "scriptToks ts \<Longrightarrow> scanScript None rest = Inr ls \<Longrightarrow>
     scanScript None (concat (map show_tok ts) @ rest) = Inr (concat (map tokLexemes ts) @ ls)"
proof (induction ts)
  case Nil
  then show ?case by simp
next
  case (Cons t ts)
  from Cons.prems have ts: "scriptToks ts" and t: "scriptTok t" by (simp_all add: scriptToks_def)
  note ih = Cons.IH [OF ts Cons.prems(2)]
  show ?case
  proof (cases t)
    case (Elem e)
    with t have "scriptExpr e" by simp
    from scan_expr [OF this ih] Elem show ?thesis by simp
  next
    case Comma
    have "scanScript None ('', '' @ concat (map show_tok ts) @ rest)
            = Inr (map Ch '', '' @ concat (map tokLexemes ts) @ ls)"
      by (rule scan_plain [OF _ ih]) (simp add: plainChar_def)
    with Comma show ?thesis by simp
  qed
qed

lemma scan_script:
  assumes "scriptToks ts" and "fname \<in> set functionNames"
  shows "scanScript None (show_script fname ts)
           = Inr (map Ch (header fname) @ concat (map tokLexemes ts) @ map Ch footer)"
proof -
  have "scanScript None (footer @ []) = Inr (map Ch footer @ [])"
    by (rule scan_plain) (simp_all add: footer_def plainChar_def)
  then have 1: "scanScript None footer = Inr (map Ch footer)" by simp
  have 2: "scanScript None (concat (map show_tok ts) @ footer)
             = Inr (concat (map tokLexemes ts) @ map Ch footer)"
    by (rule scan_tokens [OF assms(1) 1])
  have "scanScript None (header fname @ concat (map show_tok ts) @ footer)
          = Inr (map Ch (header fname) @ concat (map tokLexemes ts) @ map Ch footer)"
    by (rule scan_plain [OF _ 2]) (use assms(2) in \<open>auto simp: functionNames_def header_def plainChar_def\<close>)
  then show ?thesis by (simp add: show_script_def)
qed

lemma expect_chars: "expect s (map Ch s @ r) = Some r"
  by (induction s) auto

lemma parsePostfix_stop:
  "c \<noteq> CHR ''.'' \<Longrightarrow> c \<noteq> CHR ''['' \<Longrightarrow> parsePostfix e (Ch c # r) = (e, Ch c # r)"
  by (subst parsePostfix.simps) simp

lemma parsePostfix_map:
  "parsePostfix e (map Ch ''.map(v => '' @ r) = (e, map Ch ''.map(v => '' @ r)"
  by (subst parsePostfix.simps) simp

lemma parsePostfix_value: "parsePostfix e (map Ch ''.value'' @ r) = parsePostfix (Value e) r"
  by (subst parsePostfix.simps) simp

lemma parsePostfix_index:
  "parsePostfix e (map Ch (''['' @ idx_key i @ '']'') @ r) = parsePostfix (Index e i) r"
  by (cases i; subst parsePostfix.simps; simp)

lemma parsePath_show: "pathExpr e \<Longrightarrow> parsePath (exprLexemes e @ r) = Some (parsePostfix e r)"
proof (induction e arbitrary: r)
  case (Member on p)
  show ?case by (cases on) (simp_all add: parsePath_def parsePrimary_def)
next
  case (DocInfoKey k)
  then show ?case by (auto simp: parsePath_def parsePrimary_def)
next
  case (Value e)
  have "parsePath (exprLexemes (Value e) @ r) = parsePath (exprLexemes e @ map Ch ''.value'' @ r)"
    by simp
  also have "\<dots> = Some (parsePostfix e (map Ch ''.value'' @ r))"
    using Value.prems by (intro Value.IH) simp
  also have "\<dots> = Some (parsePostfix (Value e) r)"
    by (simp only: parsePostfix_value)
  finally show ?case .
next
  case (Index e i)
  have "parsePath (exprLexemes (Index e i) @ r)
          = parsePath (exprLexemes e @ map Ch (''['' @ idx_key i @ '']'') @ r)"
    by simp
  also have "\<dots> = Some (parsePostfix e (map Ch (''['' @ idx_key i @ '']'') @ r))"
    using Index.prems by (intro Index.IH) simp
  also have "\<dots> = Some (parsePostfix (Index e i) r)"
    by (simp only: parsePostfix_index)
  finally show ?case .
qed simp_all

lemma path_first: "pathExpr e \<Longrightarrow> \<exists>r. exprLexemes e = Ch (CHR ''d'') # r"
proof (induction e)
  case (Member on p)
  show ?case by (cases on) simp_all
qed auto

lemma expr_first:
  assumes "scriptExpr e"
  shows "\<exists>c r. exprLexemes e = Ch c # r \<and> (c = CHR ''d'' \<or> c = CHR ''m'')"
  using assms
proof (cases rule: scriptExpr_cases)
  case path
  from path_first [OF this] show ?thesis by auto
next
  case (call p x)
  then show ?thesis by simp
next
  case (each x p)
  from path_first [OF each(3)] each(1) show ?thesis by auto
qed

lemma parseElement_show:
  assumes "scriptExpr e" and "c \<noteq> CHR ''.''" and "c \<noteq> CHR ''[''"
  shows "parseElement (exprLexemes e @ Ch c # r) = Some (e, Ch c # r)"
  using assms(1)
proof (cases rule: scriptExpr_cases)
  case path
  from path_first [OF path] obtain r0 where r0: "exprLexemes e = Ch (CHR ''d'') # r0" ..
  have 1: "fromModelCall (exprLexemes e @ rest) = None" for rest
    by (simp add: r0 fromModelCall_def)
  have 2: "parsePath (exprLexemes e @ Ch c # r) = Some (e, Ch c # r)"
    by (simp only: parsePath_show [OF path] parsePostfix_stop [OF assms(2,3)])
  show ?thesis
    unfolding parseElement_def 1 2 using assms(2) by simp
next
  case (call p x)
  note x = call(3)
  have 1: "parsePath (exprLexemes x @ Ch (CHR '')'') # Ch c # r)
          = Some (x, Ch (CHR '')'') # Ch c # r)"
    by (simp only: parsePath_show [OF x]) (simp add: parsePostfix_stop)
  have 2: "fromModelCall (exprLexemes e @ Ch c # r)
          = Some (p, exprLexemes x @ Ch (CHR '')'') # Ch c # r)"
    by (simp add: call(1) fromModelCall_def)
  show ?thesis
    unfolding parseElement_def 2 by (simp add: 1 call(1))
next
  case (each x p)
  note x = each(3)
  from path_first [OF x] obtain r0 where r0: "exprLexemes x = Ch (CHR ''d'') # r0" ..
  have 1: "fromModelCall (exprLexemes x @ rest) = None" for rest
    by (simp add: r0 fromModelCall_def)
  have 2: "parsePath (exprLexemes x @ map Ch ''.map(v => '' @ rest)
          = Some (x, map Ch ''.map(v => '' @ rest)" for rest
    by (simp only: parsePath_show [OF x] parsePostfix_map)
  have 3: "exprLexemes e @ Ch c # r =
      exprLexemes x @ map Ch ''.map(v => '' @ (map Ch ''mappingInfo.getFromModelFn('' @ [Str p]
         @ map Ch '')('' @ map Ch ''v))'' @ Ch c # r)"
    using each(1) by simp
  have 4: "expect ''.map(v => '' (map Ch ''.map(v => '' @ rest) = Some rest" for rest
    by (rule expect_chars)
  have 5: "fromModelCall (map Ch ''mappingInfo.getFromModelFn('' @ [Str p]
         @ map Ch '')('' @ rest) = Some (p, rest)" for rest
    by (simp add: fromModelCall_def)
  have 6: "expect ''v))'' (map Ch ''v))'' @ rest) = Some rest" for rest
    by (rule expect_chars)
  show ?thesis
    unfolding 3 parseElement_def 1 2 by (simp only: 4 5 6 option.case prod.case each(1))
qed

lemma tokens_first:
  "scriptToks ts \<Longrightarrow>
     \<exists>c r. concat (map tokLexemes ts) @ map Ch footer = Ch c # r \<and> c \<noteq> CHR ''.'' \<and> c \<noteq> CHR ''[''"
proof (cases ts)
  case Nil
  then show ?thesis by (simp add: footer_def)
next
  case (Cons t ts')
  assume "scriptToks ts"
  with Cons have t: "scriptTok t" by (simp add: scriptToks_def)
  show ?thesis
  proof (cases t)
    case (Elem e)
    with t expr_first [of e] Cons show ?thesis by auto
  next
    case Comma
    with Cons show ?thesis by simp
  qed
qed

lemma parseTokens_show:
  "scriptToks ts \<Longrightarrow> parseTokens (concat (map tokLexemes ts) @ map Ch footer) = Some ts"
proof (induction ts)
  case Nil
  show ?case by (subst parseTokens.simps) (simp add: footer_def)
next
  case (Cons t ts)
  from Cons.prems have ts: "scriptToks ts" and t: "scriptTok t" by (simp_all add: scriptToks_def)
  note ih = Cons.IH [OF ts]
  show ?case
  proof (cases t)
    case Comma
    show ?thesis by (subst parseTokens.simps) (simp add: Comma ih)
  next
    case (Elem e)
    with t have e: "scriptExpr e" by simp
    from tokens_first [OF ts] obtain c r where
      r: "concat (map tokLexemes ts) @ map Ch footer = Ch c # r" and c: "c \<noteq> CHR ''.''" "c \<noteq> CHR ''[''"
      by blast
    from expr_first [OF e] obtain c0 r0 where
      r0: "exprLexemes e = Ch c0 # r0" and c0: "c0 = CHR ''d'' \<or> c0 = CHR ''m''" by blast
    have 1: "expect '', '' (exprLexemes e @ rest) = None" for rest
      using c0 by (auto simp: r0)
    have 2: "expect footer (exprLexemes e @ rest) = None" for rest
      using c0 by (auto simp: r0 footer_def)
    have 3: "parseElement (exprLexemes e @ concat (map tokLexemes ts) @ map Ch footer)
               = Some (e, concat (map tokLexemes ts) @ map Ch footer)"
      unfolding r by (rule parseElement_show [OF e c])
    show ?thesis
      by (subst parseTokens.simps) (simp add: Elem 1 2 3 ih)
  qed
qed

lemma parseHeader_show:
  "fname \<in> set functionNames \<Longrightarrow> parseHeader functionNames (map Ch (header fname) @ r) = Some r"
  by (auto simp: functionNames_def header_def expect_chars)

lemma runInThisContext_show:
  assumes "scriptToks ts" and "fname \<in> set functionNames"
  shows "runInThisContext (show_script fname ts) = evaluator ts"
  by (simp add: runInThisContext_def scan_script [OF assms] parseScript_def
        parseHeader_show [OF assms(2)] parseTokens_show [OF assms(1)])

subsection \<open>Auxiliary facts\<close>

lemma exprs_append [simp]: "exprs (a @ b) = exprs a @ exprs b"
  by (induction a rule: exprs.induct) auto

lemma separated_append: "separated a \<Longrightarrow> separated b \<Longrightarrow> separated (a @ Comma # b)"
  by (induction a rule: separated.induct) auto

lemma separated_nonempty: "separated a \<Longrightarrow> a \<noteq> []"
  by (cases a) auto

lemma elements_separated_gen:
  "separated a \<Longrightarrow> elements False (a @ rest) =
     (case elements True rest of Inl e \<Rightarrow> Inl e | Inr es \<Rightarrow> Inr (map Some (exprs a) @ es))"
  by (induction a rule: separated.induct) (auto split: sum.splits)

lemma elements_separated: "separated a \<Longrightarrow> elements False a = Inr (map Some (exprs a))"
  using elements_separated_gen [of a "[]"] by simp

lemma elements_separated_comma:
  "separated a \<Longrightarrow> elements False (a @ Comma # rest) =
     (case elements False rest of Inl e \<Rightarrow> Inl e | Inr es \<Rightarrow> Inr (map Some (exprs a) @ es))"
  using elements_separated_gen [of a "Comma # rest"] by simp

lemma exprs_join: "exprs (join [Comma] gs) = concat (map exprs gs)"
  by (induction gs rule: induct_list012) auto

lemma separated_join:
  "gs \<noteq> [] \<Longrightarrow> \<forall>g \<in> set gs. separated g \<Longrightarrow> separated (join [Comma] gs)"
  by (induction gs rule: induct_list012) (auto intro: separated_append)

lemma mapE_length: "mapE f xs = Inr ys \<Longrightarrow> length ys = length xs"
  by (induction xs arbitrary: ys) (auto split: sum.splits)

lemma mapE_nth: "mapE f xs = Inr ys \<Longrightarrow> i < length xs \<Longrightarrow> f (xs ! i) = Inr (ys ! i)"
proof (induction xs arbitrary: ys i)
  case Nil
  then show ?case by simp
next
  case (Cons x xs)
  then show ?case by (cases i) (auto split: sum.splits)
qed

lemma mapE_append:
  "mapE f (xs @ ys) =
     (case mapE f xs of Inl e \<Rightarrow> Inl e
      | Inr a \<Rightarrow> (case mapE f ys of Inl e \<Rightarrow> Inl e | Inr b \<Rightarrow> Inr (a @ b)))"
  by (induction xs) (auto split: sum.splits)

lemma mapE_total: "\<forall>x \<in> set xs. f x = Inr (h x) \<Longrightarrow> mapE f xs = Inr (map h xs)"
  by (induction xs) auto

lemma mapE_filter_known:
  "mapE f xs = Inr ys \<Longrightarrow> \<exists>zs. mapE f (filter P xs) = Inr zs"
  by (induction xs arbitrary: ys) (auto split: sum.splits)

lemma placeholders_append [simp]: "placeholders (a @ b) = placeholders a + placeholders b"
  by (simp add: placeholders_def)

lemma placeholders_Nil [simp]: "placeholders [] = 0"
  by (simp add: placeholders_def)

lemma placeholders_Cons [simp]:
  "placeholders (c # s) = (if c = CHR ''?'' then Suc (placeholders s) else placeholders s)"
  by (simp add: placeholders_def)

lemma placeholders_plain: "noPlaceholder s \<Longrightarrow> placeholders s = 0"
  by (induction s) (auto simp: noPlaceholder_def)

lemma placeholders_join:
  "placeholders sep = 0 \<Longrightarrow> placeholders (join sep xs) = sum_list (map placeholders xs)"
  by (induction xs rule: induct_list012) auto

lemma runGetter_length:
  "evaluator ts = Inr g \<Longrightarrow> g doc docInfo mappingInfo = Inr out \<Longrightarrow>
     \<exists>es. elements False ts = Inr es \<and> length out = length es"
  by (auto simp: evaluator_def split: sum.splits dest: mapE_length)

lemma lookup_keysPlain: "\<forall>kv \<in> set kvs. keysPlain (snd kv) \<Longrightarrow> keysPlain (lookup kvs k)"
proof (cases "map_of kvs k")
  case None
  then show ?thesis by (simp add: lookup_def)
next
  case (Some x)
  assume a: "\<forall>kv \<in> set kvs. keysPlain (snd kv)"
  from Some have "(k, x) \<in> set kvs" by (rule map_of_SomeD)
  with a have "keysPlain (snd (k, x))" by blast
  with Some show ?thesis by (simp add: lookup_def)
qed

lemma js_index_keysPlain: "js_index v i = Inr x \<Longrightarrow> keysPlain v \<Longrightarrow> keysPlain x"
  by (cases v) (auto simp: lookup_keysPlain split: if_splits)

lemma valueGetterSingle_separated: "valueGetterSingle e pn v fm = Inr ts \<Longrightarrow> separated ts"
proof (induction e pn v fm arbitrary: ts rule: valueGetterSingle.induct)
  case (1 e pn key v hc isIn fm)
  show ?case
  proof (cases hc)
    case True
    with "1.prems" obtain v0 g0 v1 g1 where
      v0: "js_index v I0 = Inr v0" and g0: "valueGetterSingle (Index (Value e) I0) pn v0 fm = Inr g0"
      and v1: "js_index v I1 = Inr v1" and g1: "valueGetterSingle (Index (Value e) I1) pn v1 fm = Inr g1"
      and ts: "ts = g0 @ [Comma] @ g1"
      by (auto split: sum.splits)
    from "1.IH"(1) [OF True v0 g0] have "separated g0" .
    moreover from "1.IH"(2) [OF True v0 g0 v1 g1] have "separated g1" .
    ultimately show ?thesis using ts by (simp add: separated_append)
  next
    case False
    with "1.prems" show ?thesis by (auto split: if_splits)
  qed
qed (auto split: if_splits)

lemma condition_placeholders:
  "getSingleCondition c v = Inr s \<Longrightarrow> valueGetterSingle e pn v fm = Inr ts \<Longrightarrow>
     noPlaceholder c \<Longrightarrow> keysPlain v \<Longrightarrow> placeholders s = length (exprs ts)"
proof (induction e pn v fm arbitrary: s ts rule: valueGetterSingle.induct)
  case (1 e pn key v hc isIn fm)
  show ?case
  proof (cases hc)
    case True
    with "1.prems"(2) obtain v0 g0 v1 g1 where
      v0: "js_index v I0 = Inr v0" and g0: "valueGetterSingle (Index (Value e) I0) pn v0 fm = Inr g0"
      and v1: "js_index v I1 = Inr v1" and g1: "valueGetterSingle (Index (Value e) I1) pn v1 fm = Inr g1"
      and ts: "ts = g0 @ [Comma] @ g1"
      by (auto split: sum.splits)
    from True "1.prems"(1) v0 v1 obtain c0 c1 where
      c0: "getSingleCondition c v0 = Inr c0" and c1: "getSingleCondition c v1 = Inr c1"
      and s: "s = c0 @ '' '' @ key @ '' '' @ c1"
      by (auto split: sum.splits)
    from "1.prems"(4) have key: "noPlaceholder key" and kv: "keysPlain v" by simp_all
    have p0: "placeholders c0 = length (exprs g0)"
      using "1.IH"(1) [OF True v0 c0 g0 "1.prems"(3) js_index_keysPlain [OF v0 kv]] .
    have p1: "placeholders c1 = length (exprs g1)"
      using "1.IH"(2) [OF True v0 g0 v1 c1 g1 "1.prems"(3) js_index_keysPlain [OF v1 kv]] .
    show ?thesis using p0 p1 s ts key by (simp add: placeholders_plain)
  next
    case False
    with "1.prems" show ?thesis by (auto simp: placeholders_plain split: if_splits)
  qed
qed (auto simp: placeholders_plain split: if_splits)

lemma mapE_sum_list:
  "mapE f ps = Inr cs \<Longrightarrow> mapE g ps = Inr gs \<Longrightarrow>
     (\<And>p c t. p \<in> set ps \<Longrightarrow> f p = Inr c \<Longrightarrow> g p = Inr t \<Longrightarrow> a c = b t) \<Longrightarrow>
     sum_list (map a cs) = sum_list (map b gs)"
proof (induction ps arbitrary: cs gs)
  case Nil
  then show ?case by simp
next
  case (Cons p ps)
  from Cons.prems(1) obtain c cs' where c: "f p = Inr c" and cs': "mapE f ps = Inr cs'"
    and cs: "cs = c # cs'" by (auto split: sum.splits)
  from Cons.prems(2) obtain t gs' where t: "g p = Inr t" and gs': "mapE g ps = Inr gs'"
    and gs: "gs = t # gs'" by (auto split: sum.splits)
  have "a c = b t" using Cons.prems(3) [of p c t] c t by simp
  moreover have "sum_list (map a cs') = sum_list (map b gs')"
    by (rule Cons.IH [OF cs' gs']) (use Cons.prems(3) in auto)
  ultimately show ?case using cs gs by simp
qed

lemma mapE_all:
  "mapE f xs = Inr ys \<Longrightarrow> (\<And>x y. x \<in> set xs \<Longrightarrow> f x = Inr y \<Longrightarrow> P y) \<Longrightarrow> \<forall>y \<in> set ys. P y"
proof (induction xs arbitrary: ys)
  case Nil
  then show ?case by simp
next
  case (Cons x xs)
  from Cons.prems(1) obtain y ys' where y: "f x = Inr y" and ys': "mapE f xs = Inr ys'"
    and ys: "ys = y # ys'" by (auto split: sum.splits)
  have "P y" using Cons.prems(2) [of x y] y by simp
  moreover have "\<forall>y \<in> set ys'. P y"
    by (rule Cons.IH [OF ys']) (use Cons.prems(2) in auto)
  ultimately show ?case using ys by simp
qed

lemma length_concat_sum: "length (concat xss) = sum_list (map length xss)"
  by (induction xss) auto

lemma valueGetterExpression_shape:
  assumes "valueGetterExpression ps objectName = Inr ts"
  shows "(ps = [] \<longrightarrow> ts = []) \<and> (ps \<noteq> [] \<longrightarrow> separated ts)"
proof -
  obtain gs where gs: "mapE (\<lambda>p. valueGetterSingle
        (Member (case objectName of None \<Rightarrow> DocObj | Some n \<Rightarrow> n) (propertyName p))
        (propertyName p) (val p) (fromModel p)) ps = Inr gs" and ts: "ts = join [Comma] gs"
    using assms by (auto simp: valueGetterExpression_def Let_def split: sum.splits)
  have len: "length gs = length ps" using mapE_length [OF gs] .
  have sep: "\<forall>g \<in> set gs. separated g"
    by (rule mapE_all [OF gs]) (rule valueGetterSingle_separated)
  show ?thesis
  proof (cases "ps = []")
    case True
    with len ts show ?thesis by simp
  next
    case False
    with len have "gs \<noteq> []" by auto
    from separated_join [OF this sep] ts False show ?thesis by simp
  qed
qed

lemma conditions_placeholders:
  assumes c: "getConditionWithOperators ps = Inr s"
    and g: "valueGetterExpression ps objectName = Inr ts"
    and plain: "\<forall>p \<in> set ps. plainBinding p"
  shows "placeholders s = length (exprs ts)"
proof -
  obtain cs where cs: "mapE (\<lambda>p. getSingleCondition (columnName p) (val p)) ps = Inr cs"
    and s: "s = join '' AND '' cs"
    using c by (auto simp: getConditionWithOperators_def split: sum.splits)
  obtain gs where gs: "mapE (\<lambda>p. valueGetterSingle
        (Member (case objectName of None \<Rightarrow> DocObj | Some n \<Rightarrow> n) (propertyName p))
        (propertyName p) (val p) (fromModel p)) ps = Inr gs" and ts: "ts = join [Comma] gs"
    using g by (auto simp: valueGetterExpression_def Let_def split: sum.splits)
  have "sum_list (map placeholders cs) = sum_list (map (\<lambda>t. length (exprs t)) gs)"
  proof (rule mapE_sum_list [OF cs gs])
    fix p c t
    assume "p \<in> set ps" and "getSingleCondition (columnName p) (val p) = Inr c"
      and "valueGetterSingle (Member (case objectName of None \<Rightarrow> DocObj | Some n \<Rightarrow> n)
              (propertyName p)) (propertyName p) (val p) (fromModel p) = Inr t"
    then show "placeholders c = length (exprs t)"
      using plain by (auto simp: plainBinding_def intro: condition_placeholders)
  qed
  moreover have "placeholders s = sum_list (map placeholders cs)"
    unfolding s by (rule placeholders_join) simp
  moreover have "length (exprs ts) = sum_list (map (\<lambda>t. length (exprs t)) gs)"
    unfolding ts by (simp add: exprs_join length_concat_sum comp_def)
  ultimately show ?thesis by simp
qed

lemma valueGetterSingle_single:
  "\<not> hasChildren v \<Longrightarrow> \<exists>x. valueGetterSingle e pn v fm = Inr [Elem x]"
  by (cases v) auto

lemma values_count:
  assumes g: "valueGetterExpression ps objectName = Inr ts"
    and single: "\<forall>p \<in> set ps. \<not> hasChildren (val p)"
  shows "length (exprs ts) = length ps"
proof -
  obtain gs where gs: "mapE (\<lambda>p. valueGetterSingle
        (Member (case objectName of None \<Rightarrow> DocObj | Some n \<Rightarrow> n) (propertyName p))
        (propertyName p) (val p) (fromModel p)) ps = Inr gs" and ts: "ts = join [Comma] gs"
    using g by (auto simp: valueGetterExpression_def Let_def split: sum.splits)
  have "\<forall>t \<in> set gs. length (exprs t) = 1"
  proof (rule mapE_all [OF gs])
    fix p t
    assume "p \<in> set ps" and t: "valueGetterSingle
        (Member (case objectName of None \<Rightarrow> DocObj | Some n \<Rightarrow> n) (propertyName p))
        (propertyName p) (val p) (fromModel p) = Inr t"
    with single have "\<not> hasChildren (val p)" by simp
    from valueGetterSingle_single [OF this] t show "length (exprs t) = 1" by (metis Inr_inject exprs.simps(1,2) length_Cons list.size(3) One_nat_def)
  qed
  then have "sum_list (map (\<lambda>t. length (exprs t)) gs) = length gs"
    by (induction gs) auto
  then show ?thesis
    unfolding ts using mapE_length [OF gs] by (simp add: exprs_join length_concat_sum comp_def)
qed

lemma assignment_shape:
  "length (exprs (assignmentGetterExpression ps objectName)) = length ps \<and>
   (ps = [] \<longrightarrow> assignmentGetterExpression ps objectName = []) \<and>
   (ps \<noteq> [] \<longrightarrow> separated (assignmentGetterExpression ps objectName))"
proof -
  define f where "f = (\<lambda>p::pinfo. let valueGetter =
             (if isQueryAssignment (val p)
              then Value (Member (case objectName of None \<Rightarrow> DocObj | Some n \<Rightarrow> n) (propertyName p))
              else Member (case objectName of None \<Rightarrow> DocObj | Some n \<Rightarrow> n) (propertyName p))
           in if fromModel p \<noteq> None
              then [Elem (getMappingFunctionCall (propertyName p) valueGetter)]
              else [Elem valueGetter])"
  have a: "assignmentGetterExpression ps objectName = join [Comma] (map f ps)"
    by (simp add: assignmentGetterExpression_def f_def Let_def)
  have one: "\<And>p. \<exists>x. f p = [Elem x]" by (simp add: f_def Let_def)
  have "\<forall>t \<in> set (map f ps). length (exprs t) = 1"
    using one by (auto simp: ) (metis exprs.simps(1,2) length_Cons list.size(3) One_nat_def)
  then have "sum_list (map (\<lambda>t. length (exprs t)) (map f ps)) = length ps"
    by (induction ps) auto
  then have len: "length (exprs (join [Comma] (map f ps))) = length ps"
    by (simp add: exprs_join length_concat_sum comp_def)
  have "\<forall>t \<in> set (map f ps). separated t" using one by (auto) (metis separated.simps(1))
  then have "ps \<noteq> [] \<longrightarrow> separated (join [Comma] (map f ps))"
    using separated_join [of "map f ps"] by simp
  with len a show ?thesis by auto
qed

text \<open>The scripts are written with paths and, when the property names stand for themselves, read back.\<close>

lemma scriptToks_Nil [simp]: "scriptToks []"
  by (simp add: scriptToks_def)

lemma scriptToks_Cons [simp]: "scriptToks (t # ts) = (scriptTok t \<and> scriptToks ts)"
  by (simp add: scriptToks_def)

lemma scriptToks_append [simp]: "scriptToks (a @ b) = (scriptToks a \<and> scriptToks b)"
  by (auto simp: scriptToks_def)

lemma scriptToks_join: "\<forall>g \<in> set gs. scriptToks g \<Longrightarrow> scriptToks (join [Comma] gs)"
  by (induction gs rule: induct_list012) auto

lemma pathExpr_scriptExpr: "pathExpr e \<Longrightarrow> scriptExpr e"
  by (cases e) auto

lemma valueGetterSingle_script:
  "valueGetterSingle e pn v fm = Inr ts \<Longrightarrow> pathExpr e \<Longrightarrow> safeName pn \<Longrightarrow> scriptToks ts"
proof (induction e pn v fm arbitrary: ts rule: valueGetterSingle.induct)
  case (1 e pn key v hc isIn fm)
  show ?case
  proof (cases hc)
    case True
    with "1.prems"(1) obtain v0 g0 v1 g1 where
      v0: "js_index v I0 = Inr v0" and g0: "valueGetterSingle (Index (Value e) I0) pn v0 fm = Inr g0"
      and v1: "js_index v I1 = Inr v1" and g1: "valueGetterSingle (Index (Value e) I1) pn v1 fm = Inr g1"
      and ts: "ts = g0 @ [Comma] @ g1"
      by (auto split: sum.splits)
    have "scriptToks g0"
      using "1.IH"(1) [OF True v0 g0] "1.prems"(2,3) by simp
    moreover have "scriptToks g1"
      using "1.IH"(2) [OF True v0 g0 v1 g1] "1.prems"(2,3) by simp
    ultimately show ?thesis using ts by simp
  next
    case False
    with "1.prems" show ?thesis
      by (auto simp: getMappingFunctionCall_def pathExpr_scriptExpr split: if_splits)
  qed
qed (auto simp: getMappingFunctionCall_def pathExpr_scriptExpr split: if_splits)

lemma valueGetterExpression_script:
  assumes "valueGetterExpression ps objectName = Inr ts" and "safeNames ps"
  shows "scriptToks ts"
proof -
  obtain gs where gs: "mapE (\<lambda>p. valueGetterSingle
        (Member (case objectName of None \<Rightarrow> DocObj | Some n \<Rightarrow> n) (propertyName p))
        (propertyName p) (val p) (fromModel p)) ps = Inr gs" and ts: "ts = join [Comma] gs"
    using assms(1) by (auto simp: valueGetterExpression_def Let_def split: sum.splits)
  have "\<forall>g \<in> set gs. scriptToks g"
  proof (rule mapE_all [OF gs])
    fix p g
    assume "p \<in> set ps" and "valueGetterSingle
        (Member (case objectName of None \<Rightarrow> DocObj | Some n \<Rightarrow> n) (propertyName p))
        (propertyName p) (val p) (fromModel p) = Inr g"
    with assms(2) show "scriptToks g"
      by (intro valueGetterSingle_script [of _ "propertyName p" "val p" "fromModel p"])
         (auto simp: safeNames_def)
  qed
  then show ?thesis unfolding ts by (rule scriptToks_join)
qed

lemma assignmentGetterExpression_script:
  assumes "safeNames ps"
  shows "scriptToks (assignmentGetterExpression ps objectName)"
proof -
  have "\<forall>g \<in> set (map (\<lambda>p.
           let valueGetter =
             (if isQueryAssignment (val p)
              then Value (Member (case objectName of None \<Rightarrow> DocObj | Some n \<Rightarrow> n) (propertyName p))
              else Member (case objectName of None \<Rightarrow> DocObj | Some n \<Rightarrow> n) (propertyName p))
           in if fromModel p \<noteq> None
              then [Elem (getMappingFunctionCall (propertyName p) valueGetter)]
              else [Elem valueGetter]) ps). scriptToks g"
    using assms by (auto simp: safeNames_def Let_def getMappingFunctionCall_def)
  from scriptToks_join [OF this] show ?thesis
    by (simp add: assignmentGetterExpression_def Let_def)
qed

lemma safeNames_filter: "safeNames ps \<Longrightarrow> safeNames (filter P ps)"
  by (simp add: safeNames_def)

lemma functionNames_mem [simp]:
  "''getParametersSelect'' \<in> set functionNames" "''getParametersInsert'' \<in> set functionNames"
  "''getParametersUpdate'' \<in> set functionNames" "''getParametersDelete'' \<in> set functionNames"
  by (simp_all add: functionNames_def)

lemma selectParamsGetter_tokens:
  assumes "safeNames ps"
  shows "selectParamsGetter ps lim =
           (case selectParamsScript ps lim of Inl e \<Rightarrow> Inl e | Inr ts \<Rightarrow> evaluator ts)"
proof (cases "selectParamsScript ps lim")
  case (Inl e)
  then show ?thesis by (simp add: selectParamsGetter_def)
next
  case (Inr ts)
  then have "scriptToks ts"
    using assms
    by (auto simp: selectParamsScript_def split: sum.splits if_splits
          dest: valueGetterExpression_script)
  from runInThisContext_show [OF this, of "''getParametersSelect''"] Inr
  show ?thesis by (simp add: selectParamsGetter_def)
qed

lemma insertParamsGetter_tokens:
  assumes "safeNames ps"
  shows "insertParamsGetter ps di =
           (case insertParamsScript ps di of Inl e \<Rightarrow> Inl e | Inr ts \<Rightarrow> evaluator ts)"
proof (cases "insertParamsScript ps di")
  case (Inl e)
  then show ?thesis by (simp add: insertParamsGetter_def)
next
  case (Inr ts)
  then have "scriptToks ts"
    using assms
    by (auto simp: insertParamsScript_def split: sum.splits if_splits
          dest: valueGetterExpression_script)
  from runInThisContext_show [OF this, of "''getParametersInsert''"] Inr
  show ?thesis by (simp add: insertParamsGetter_def)
qed

lemma updateParamsGetter_tokens:
  assumes "safeNames ps" and "safeNames w"
  shows "updateParamsGetter pk ps w ttl' =
           (case updateParamsScript pk ps w ttl' of Inl e \<Rightarrow> Inl e | Inr ts \<Rightarrow> evaluator ts)"
proof (cases "updateParamsScript pk ps w ttl'")
  case (Inl e)
  then show ?thesis by (simp add: updateParamsGetter_def)
next
  case (Inr ts)
  have a: "scriptToks (assignmentGetterExpression (filter (\<lambda>p. columnName p \<notin> pk) ps) None)"
    by (rule assignmentGetterExpression_script [OF safeNames_filter [OF assms(1)]])
  from Inr have "scriptToks ts"
    using a valueGetterExpression_script [OF _ safeNames_filter [OF assms(1)]]
      valueGetterExpression_script [OF _ assms(2)]
    by (auto simp: updateParamsScript_def Let_def split: sum.splits if_splits)
  from runInThisContext_show [OF this, of "''getParametersUpdate''"] Inr
  show ?thesis by (simp add: updateParamsGetter_def)
qed

lemma deleteParamsGetter_tokens:
  assumes "safeNames (filter (\<lambda>p. columnName p \<in> pk) ps)" and "safeNames w"
  shows "deleteParamsGetter pk ps w =
           (case deleteParamsScript pk ps w of Inl e \<Rightarrow> Inl e | Inr ts \<Rightarrow> evaluator ts)"
proof (cases "deleteParamsScript pk ps w")
  case (Inl e)
  then show ?thesis by (simp add: deleteParamsGetter_def)
next
  case (Inr ts)
  then have "scriptToks ts"
    using valueGetterExpression_script [OF _ assms(1)]
      valueGetterExpression_script [OF _ assms(2)]
    by (auto simp: deleteParamsScript_def split: sum.splits if_splits)
  from runInThisContext_show [OF this, of "''getParametersDelete''"] Inr
  show ?thesis by (simp add: deleteParamsGetter_def)
qed

lemma runScript_tokens:
  "scriptToks ts \<Longrightarrow> fname \<in> set functionNames \<Longrightarrow>
     runScript fname ts doc di mi = runGetter ts doc di mi"
  by (simp add: runScript_def runGetter_def runInThisContext_show)

lemmas script_defs = valueGetterExpression_def assignmentGetterExpression_def
  getMappingFunctionCall_def evaluator_def getConditionWithOperators_def

lemmas safe_defs = safeNames_def safeName_def

lemmas insert_defs = getInsert_def insertParamsGetter_tokens insertParamsScript_def
  getInsertQuery_def docInfoTtl_def columnByName_def objectPrototypeNames_def

lemmas update_defs = getUpdate_def updateParamsGetter_tokens updateParamsScript_def
  getUpdateQuery_def docInfoTtl_def primaryKeysOf_def columnByName_def objectPrototypeNames_def

lemmas delete_defs = getDelete_def deleteParamsGetter_tokens deleteParamsScript_def
  getDeleteQuery_def docInfoDeleteOnlyColumns_def primaryKeysOf_def columnByName_def
  objectPrototypeNames_def

lemmas select_defs = getSelect_def selectParamsGetter_tokens selectParamsScript_def

lemmas vocab_defs = statementQuery_def statementGetter_def applyGetter_def runGetter_def

lemmas regular_defs = surviving_def mutated_def identifying_def primaryKeysOf_def plainBinding_def
  noPlaceholder_def docInfoTtl_def columnByName_def objectPrototypeNames_def

lemma plain_join:
  "\<forall>x \<in> set xs. noPlaceholder x \<Longrightarrow> placeholders sep = 0 \<Longrightarrow> placeholders (join sep xs) = 0"
  by (induction xs rule: induct_list012) (auto simp: placeholders_plain)

lemma select_query_placeholders:
  assumes q: "getSelect tn ks ps fs ob af lim = Inr q"
    and plain: "noPlaceholder tn" "noPlaceholder ks" "\<forall>f \<in> set fs. noPlaceholder (columnName f)"
      "\<forall>order \<in> set ob. noPlaceholder (fst order) \<and> noPlaceholder (snd order)"
  shows "\<exists>c. (if ps = [] then c = [] else getConditionWithOperators ps = Inr c) \<and>
             placeholders q = placeholders c + (if isNumber lim then 1 else 0)"
proof -
  have f: "placeholders (join '', '' (map columnName fs)) = 0"
    using plain(3) by (intro plain_join) auto
  have o: "placeholders (join '', '' (map (\<lambda>order. fst order @ '' '' @ snd order) ob)) = 0"
    using plain(4) by (intro plain_join) (auto simp: noPlaceholder_def)
  show ?thesis
    using q f o plain(1,2)
    by (auto simp: getSelect_def Let_def placeholders_plain split: sum.splits if_splits)
qed

lemma select_getter_length:
  assumes g: "selectParamsGetter ps lim = Inr g" and out: "g doc di mi = Inr out"
    and safe: "safeNames ps"
  shows "\<exists>w. valueGetterExpression ps None = Inr w \<and>
             length out = length (exprs w) + (if isNumber lim then 1 else 0)"
proof -
  from g obtain w where w: "valueGetterExpression ps None = Inr w"
    and r: "evaluator (if isNumber lim
               then (if length ps > 0 then w @ [Comma] else w) @ [Elem (DocInfoKey ''limit'')]
               else w) = Inr g"
    using selectParamsGetter_tokens [OF safe, of lim]
    by (auto simp: selectParamsScript_def split: sum.splits)
  from runGetter_length [OF r out] obtain es where
    es: "elements False (if isNumber lim
               then (if length ps > 0 then w @ [Comma] else w) @ [Elem (DocInfoKey ''limit'')]
               else w) = Inr es" and len: "length out = length es" by blast
  from valueGetterExpression_shape [OF w]
  have shape: "ps = [] \<longrightarrow> w = []" "ps \<noteq> [] \<longrightarrow> separated w" by simp_all
  have "length es = length (exprs w) + (if isNumber lim then 1 else 0)"
  proof (cases "ps = []")
    case True
    with shape es show ?thesis by (auto split: if_splits)
  next
    case False
    with shape have sep: "separated w" by simp
    show ?thesis
      using es False elements_separated [OF sep]
        elements_separated_comma [OF sep, of "[Elem (DocInfoKey ''limit'')]"]
      by (auto split: if_splits)
  qed
  with w len show ?thesis by simp
qed

lemma select_placeholders:
  assumes q: "getSelect tn ks ps fs ob af lim = Inr q"
    and g: "selectParamsGetter ps lim = Inr g" and out: "g doc di mi = Inr out"
    and plain: "noPlaceholder tn" "noPlaceholder ks" "\<forall>f \<in> set fs. noPlaceholder (columnName f)"
      "\<forall>order \<in> set ob. noPlaceholder (fst order) \<and> noPlaceholder (snd order)"
      "\<forall>p \<in> set ps. plainBinding p"
    and safe: "safeNames ps"
  shows "placeholders q = length out"
proof -
  from select_query_placeholders [OF q plain(1-4)] obtain c where
    c: "if ps = [] then c = [] else getConditionWithOperators ps = Inr c"
    and pq: "placeholders q = placeholders c + (if isNumber lim then 1 else 0)" by blast
  from select_getter_length [OF g out safe] obtain w where
    w: "valueGetterExpression ps None = Inr w"
    and lo: "length out = length (exprs w) + (if isNumber lim then 1 else 0)" by blast
  have "placeholders c = length (exprs w)"
  proof (cases "ps = []")
    case True
    with c valueGetterExpression_shape [OF w] show ?thesis by simp
  next
    case False
    with c have "getConditionWithOperators ps = Inr c" by simp
    from conditions_placeholders [OF this w plain(5)] show ?thesis .
  qed
  with pq lo show ?thesis by simp
qed

lemma ones_join:
  "\<forall>x \<in> set xs. placeholders x = 1 \<Longrightarrow> placeholders sep = 0 \<Longrightarrow>
     placeholders (join sep xs) = length xs"
  by (induction xs rule: induct_list012) auto

lemma insert_placeholders:
  assumes r: "getInsert t ks ps di ine af = Inr r"
    and out: "paramsGetter r doc di' mi = Inr out"
    and plain: "noPlaceholder ks" "noPlaceholder (name t)"
    and cols: "\<forall>p \<in> set (surviving t ps). noPlaceholder (columnName p) \<and> \<not> hasChildren (val p)"
    and nonempty: "isNumber (docInfoTtl di) \<longrightarrow> surviving t ps \<noteq> []"
    and safe: "safeNames (surviving t ps)"
  shows "placeholders (query r) = length out"
proof -
  define F where "F = surviving t ps"
  define T where "T = (if isNumber (docInfoTtl di) then 1 else 0 :: nat)"
  note tok = insertParamsGetter_tokens [OF safe, unfolded surviving_def]
  from r obtain w where w: "valueGetterExpression F None = Inr w"
    and g: "evaluator (if isNumber (docInfoTtl di)
               then w @ [Comma, Elem (DocInfoKey ''ttl'')] else w) = Inr (paramsGetter r)"
    and q: "query r = getInsertQuery (name t) ks F ine (docInfoTtl di) af"
    by (auto simp: getInsert_def tok insertParamsScript_def Let_def
          surviving_def F_def docInfoTtl_def split: sum.splits option.splits)
  have names: "placeholders (join '', '' (map columnName F)) = 0"
    using cols unfolding F_def by (intro plain_join) auto
  have marks: "placeholders (join '', '' (map (\<lambda>_. ''?'') F)) = length F"
    using ones_join [of "map (\<lambda>_. ''?'') F" "'', ''"] by simp
  have pq: "placeholders (query r) = length F + T"
    unfolding q getInsertQuery_def Let_def T_def
    using names marks plain by (simp add: placeholders_plain)
  from runGetter_length [OF g out] obtain es where
    es: "elements False (if isNumber (docInfoTtl di)
               then w @ [Comma, Elem (DocInfoKey ''ttl'')] else w) = Inr es"
    and len: "length out = length es" by blast
  have cnt: "length (exprs w) = length F"
    using values_count [OF w] cols unfolding F_def by simp
  from valueGetterExpression_shape [OF w]
  have shape: "F = [] \<longrightarrow> w = []" "F \<noteq> [] \<longrightarrow> separated w" by simp_all
  have "length es = length (exprs w) + T"
  proof (cases "F = []")
    case True
    with shape es nonempty show ?thesis by (auto simp: F_def T_def split: if_splits)
  next
    case False
    with shape have sep: "separated w" by simp
    show ?thesis
      using es elements_separated [OF sep]
        elements_separated_comma [OF sep, of "[Elem (DocInfoKey ''ttl'')]"]
      by (auto simp: T_def split: if_splits)
  qed
  with pq len cnt show ?thesis by simp
qed

lemma updateFilter_surviving:
  "updateFilter t ps flags = Inr (fs, fl) \<Longrightarrow>
     fs = surviving t ps \<and> (\<forall>p \<in> set ps. columnByName t (columnName p) \<noteq> InheritedEntry)"
  by (induction t ps flags arbitrary: fs fl rule: updateFilter.induct)
     (auto simp: surviving_def split: entry.splits sum.splits prod.splits)

lemma updateFilter_returns:
  "\<forall>p \<in> set ps. columnByName t (columnName p) \<noteq> InheritedEntry \<Longrightarrow>
     \<exists>fl. updateFilter t ps flags = Inr (surviving t ps, fl)"
proof (induction t ps flags rule: updateFilter.induct)
  case (1 t i c)
  show ?case by (simp add: surviving_def)
next
  case (2 t p ps i c)
  show ?case
  proof (cases "columnByName t (columnName p)")
    case NoEntry
    with 2(1) [OF NoEntry] 2(3) show ?thesis by (simp add: surviving_def)
  next
    case (ColumnEntry column)
    from 2(2) [OF ColumnEntry] 2(3) obtain fl where
      "updateFilter t ps (if code column = ListType \<and> isQueryAssignment (val p)
                   then (False, c)
                   else if code column = CounterType then (False, True)
                   else (i, c)) = Inr (surviving t ps, fl)"
      by auto
    with ColumnEntry show ?thesis by (simp add: surviving_def)
  next
    case InheritedEntry
    with 2(3) show ?thesis by simp
  qed
qed

lemma conditional_suffix:
  assumes "(if ie = Some True then Inr (q0 @ '' IF EXISTS'')
            else if length w > 0
            then (case getConditionWithOperators w of Inl e \<Rightarrow> Inl e
                  | Inr c \<Rightarrow> Inr (q0 @ '' IF '' @ c))
            else Inr q0) = Inr q"
    and "w \<noteq> [] \<longrightarrow> ie \<noteq> Some True"
  shows "\<exists>c. (if w = [] then c = [] else getConditionWithOperators w = Inr c) \<and>
             placeholders q = placeholders q0 + placeholders c"
  using assms by (auto split: if_splits sum.splits)

lemma delete_placeholders:
  assumes r: "getDelete t ks ps di w ie = Inr r"
    and out: "paramsGetter r doc di' mi = Inr out"
    and plain: "noPlaceholder ks" "noPlaceholder (name t)"
      "\<forall>p \<in> set (surviving t ps). noPlaceholder (columnName p)"
      "\<forall>p \<in> set (identifying t ps). \<not> hasChildren (val p)"
      "\<forall>p \<in> set w. plainBinding p"
    and cond: "w \<noteq> [] \<longrightarrow> identifying t ps \<noteq> [] \<and> ie \<noteq> Some True"
    and safe: "safeNames (identifying t ps)" "safeNames w"
  shows "placeholders (query r) = length out"
proof -
  define I where "I = identifying t ps"
  define M where "M = mutated t ps"
  note tok = deleteParamsGetter_tokens [OF safe(1) [unfolded identifying_def surviving_def] safe(2)]
  define q0 where "q0 = (''DELETE'' @ (if truthy (docInfoDeleteOnlyColumns di) \<and> join '', '' (map columnName M) \<noteq> []
        then '' '' @ join '', '' (map columnName M) else [])) @ '' FROM '' @ ks @ ''.'' @ name t @ '' WHERE ''
        @ join '' AND '' (map (\<lambda>p. columnName p @ '' = ?'') I)"
  from r have q: "(if ie = Some True then Inr (q0 @ '' IF EXISTS'')
            else if length w > 0
            then (case getConditionWithOperators w of Inl e \<Rightarrow> Inl e
                  | Inr c \<Rightarrow> Inr (q0 @ '' IF '' @ c))
            else Inr q0) = Inr (query r)"
    by (auto simp: getDelete_def getDeleteQuery_def Let_def q0_def I_def M_def identifying_def
          mutated_def surviving_def split: sum.splits if_splits)
  from r obtain v where v: "valueGetterExpression I None = Inr v"
    and g: "(if length w > 0
           then (case valueGetterExpression w (Some DocInfoWhen) of Inl e \<Rightarrow> Inl e
                 | Inr c \<Rightarrow> evaluator (v @ [Comma] @ c))
           else evaluator v) = Inr (paramsGetter r)"
    by (auto simp: getDelete_def tok deleteParamsScript_def Let_def I_def
          identifying_def surviving_def split: sum.splits if_splits)
  have Isub: "set I \<subseteq> set (surviving t ps)" and Msub: "set M \<subseteq> set (surviving t ps)"
    by (auto simp: I_def M_def identifying_def mutated_def)
  have cols: "placeholders (join '', '' (map columnName M)) = 0"
    using plain(3) Msub by (intro plain_join) auto
  have keys: "placeholders (join '' AND '' (map (\<lambda>p. columnName p @ '' = ?'') I)) = length I"
  proof -
    have "\<forall>x \<in> set (map (\<lambda>p. columnName p @ '' = ?'') I). placeholders x = 1"
      using plain(3) Isub by (auto simp: placeholders_plain)
    from ones_join [OF this, of "'' AND ''"] show ?thesis by simp
  qed
  have p0: "placeholders q0 = length I"
    unfolding q0_def using cols keys plain(1,2) by (simp add: placeholders_plain)
  from conditional_suffix [OF q] cond obtain c where
    c: "if w = [] then c = [] else getConditionWithOperators w = Inr c"
    and pq: "placeholders (query r) = placeholders q0 + placeholders c" by blast
  have cnt: "length (exprs v) = length I"
    using values_count [OF v] plain(4) unfolding I_def by simp
  from valueGetterExpression_shape [OF v]
  have shape: "I = [] \<longrightarrow> v = []" "I \<noteq> [] \<longrightarrow> separated v" by simp_all
  have "length out = length I + placeholders c"
  proof (cases "w = []")
    case True
    with g have g': "evaluator v = Inr (paramsGetter r)" by simp
    from runGetter_length [OF g' out] obtain es where
      es: "elements False v = Inr es" and len: "length out = length es" by blast
    have "length es = length (exprs v)"
    proof (cases "I = []")
      case True
      with shape es show ?thesis by auto
    next
      case False
      with shape es elements_separated [of v] show ?thesis by auto
    qed
    with True c len cnt show ?thesis by simp
  next
    case False
    with g obtain cw where cw: "valueGetterExpression w (Some DocInfoWhen) = Inr cw"
      and g': "evaluator (v @ [Comma] @ cw) = Inr (paramsGetter r)"
      by (auto split: sum.splits)
    from False cond shape have sv: "separated v" by (simp add: I_def)
    from False valueGetterExpression_shape [OF cw] have sc: "separated cw" by simp
    from runGetter_length [OF g' out] obtain es where
      es: "elements False (v @ [Comma] @ cw) = Inr es" and len: "length out = length es" by blast
    from es elements_separated_comma [OF sv, of cw] elements_separated [OF sc]
    have "length es = length (exprs v) + length (exprs cw)" by auto
    moreover from False c have "getConditionWithOperators w = Inr c" by simp
    from conditions_placeholders [OF this cw plain(5)]
    have "placeholders c = length (exprs cw)" .
    ultimately show ?thesis using len cnt by simp
  qed
  with pq p0 show ?thesis by simp
qed

lemma assignment_text_placeholders:
  assumes "noPlaceholder (columnName p)" and "keysPlain (val p)"
  shows "placeholders (case val p of
            JAssign sign v inverted \<Rightarrow>
              (if inverted then columnName p @ '' = ? '' @ sign @ '' '' @ columnName p
               else columnName p @ '' = '' @ columnName p @ '' '' @ sign @ '' ?'')
          | _ \<Rightarrow> columnName p @ '' = ?'') = 1"
  using assms by (cases "val p") (auto simp: placeholders_plain)

lemma update_placeholders:
  assumes r: "getUpdate t ks ps di w ie af = Inr r"
    and out: "paramsGetter r doc di' mi = Inr out"
    and nottl: "\<not> isNumber (docInfoTtl di)"
    and plain: "noPlaceholder ks" "noPlaceholder (name t)"
      "\<forall>p \<in> set (surviving t ps). plainBinding p"
      "\<forall>p \<in> set (identifying t ps). \<not> hasChildren (val p)"
      "\<forall>p \<in> set w. plainBinding p"
    and nonempty: "mutated t ps \<noteq> []"
    and cond: "w \<noteq> [] \<longrightarrow> identifying t ps \<noteq> [] \<and> ie \<noteq> Some True"
    and safe: "safeNames (surviving t ps)" "safeNames w"
  shows "placeholders (query r) = length out"
proof -
  note tok = updateParamsGetter_tokens [OF safe]
  define I where "I = identifying t ps"
  define M where "M = mutated t ps"
  define A where "A = assignmentGetterExpression M None"
  define q0 where "q0 = ''UPDATE '' @ ks @ ''.'' @ name t @ '' '' @ ''SET '' @ join '', ''
            (map (\<lambda>p.
               (case val p of
                  JAssign sign v inverted \<Rightarrow>
                    (if inverted then columnName p @ '' = ? '' @ sign @ '' '' @ columnName p
                     else columnName p @ '' = '' @ columnName p @ '' '' @ sign @ '' ?'')
                | _ \<Rightarrow> columnName p @ '' = ?'')) M)
          @ '' WHERE '' @ join '' AND '' (map (\<lambda>p. columnName p @ '' = ?'') I)"
  from r obtain fs i0 c0 where F0: "updateFilter t ps (True, False) = Inr (fs, i0, c0)"
    by (auto simp: getUpdate_def Let_def split: sum.splits prod.splits)
  from updateFilter_surviving [OF F0] F0
  have F: "updateFilter t ps (True, False) = Inr (surviving t ps, i0, c0)" by simp
  from r have q: "(if ie = Some True then Inr (q0 @ '' IF EXISTS'')
            else if length w > 0
            then (case getConditionWithOperators w of Inl e \<Rightarrow> Inl e
                  | Inr c \<Rightarrow> Inr (q0 @ '' IF '' @ c))
            else Inr q0) = Inr (query r)"
    using F
    by (auto simp: getUpdate_def getUpdateQuery_def Let_def q0_def I_def M_def identifying_def
          mutated_def split: sum.splits if_splits)
  from r nottl obtain v where v: "valueGetterExpression I None = Inr v"
    and g: "(if length w > 0
           then (case valueGetterExpression w (Some DocInfoWhen) of Inl e \<Rightarrow> Inl e
                 | Inr c \<Rightarrow> evaluator (A @ [Comma] @ v @ [Comma] @ c))
           else evaluator (A @ [Comma] @ v)) = Inr (paramsGetter r)"
    using F
    by (auto simp: getUpdate_def tok updateParamsScript_def Let_def I_def M_def
          A_def identifying_def mutated_def split: sum.splits if_splits)
  have Isub: "set I \<subseteq> set (surviving t ps)" and Msub: "set M \<subseteq> set (surviving t ps)"
    by (auto simp: I_def M_def identifying_def mutated_def)
  have sets: "placeholders (join '', ''
            (map (\<lambda>p.
               (case val p of
                  JAssign sign v inverted \<Rightarrow>
                    (if inverted then columnName p @ '' = ? '' @ sign @ '' '' @ columnName p
                     else columnName p @ '' = '' @ columnName p @ '' '' @ sign @ '' ?'')
                | _ \<Rightarrow> columnName p @ '' = ?'')) M)) = length M"
  proof -
    have "\<forall>x \<in> set (map (\<lambda>p.
               (case val p of
                  JAssign sign v inverted \<Rightarrow>
                    (if inverted then columnName p @ '' = ? '' @ sign @ '' '' @ columnName p
                     else columnName p @ '' = '' @ columnName p @ '' '' @ sign @ '' ?'')
                | _ \<Rightarrow> columnName p @ '' = ?'')) M). placeholders x = 1"
      using plain(3) Msub assignment_text_placeholders by (auto simp: plainBinding_def)
    from ones_join [OF this, of "'', ''"] show ?thesis by simp
  qed
  have keys: "placeholders (join '' AND '' (map (\<lambda>p. columnName p @ '' = ?'') I)) = length I"
  proof -
    have "\<forall>x \<in> set (map (\<lambda>p. columnName p @ '' = ?'') I). placeholders x = 1"
      using plain(3) Isub by (auto simp: placeholders_plain plainBinding_def)
    from ones_join [OF this, of "'' AND ''"] show ?thesis by simp
  qed
  have p0: "placeholders q0 = length M + length I"
    unfolding q0_def using sets keys plain(1,2) by (simp add: placeholders_plain)
  from conditional_suffix [OF q] cond obtain c where
    c: "if w = [] then c = [] else getConditionWithOperators w = Inr c"
    and pq: "placeholders (query r) = placeholders q0 + placeholders c" by blast
  have cnt: "length (exprs v) = length I"
    using values_count [OF v] plain(4) unfolding I_def by simp
  from valueGetterExpression_shape [OF v]
  have shape: "I = [] \<longrightarrow> v = []" "I \<noteq> [] \<longrightarrow> separated v" by simp_all
  from assignment_shape [of M None] nonempty
  have sA: "separated A" and lA: "length (exprs A) = length M" by (simp_all add: A_def M_def)
  have "length out = length M + length I + placeholders c"
  proof (cases "w = []")
    case True
    with g have g': "evaluator (A @ [Comma] @ v) = Inr (paramsGetter r)" by simp
    from runGetter_length [OF g' out] obtain es where
      es: "elements False (A @ [Comma] @ v) = Inr es" and len: "length out = length es" by blast
    have "length es = length (exprs A) + length (exprs v)"
    proof (cases "I = []")
      case True
      with shape es elements_separated_comma [OF sA, of "[]"] show ?thesis by auto
    next
      case False
      with shape es elements_separated_comma [OF sA, of v] elements_separated [of v]
      show ?thesis by auto
    qed
    with True c len cnt lA show ?thesis by simp
  next
    case False
    with g obtain cw where cw: "valueGetterExpression w (Some DocInfoWhen) = Inr cw"
      and g': "evaluator (A @ [Comma] @ v @ [Comma] @ cw) = Inr (paramsGetter r)"
      by (auto split: sum.splits)
    from False cond shape have sv: "separated v" by (simp add: I_def)
    from False valueGetterExpression_shape [OF cw] have sc: "separated cw" by simp
    from runGetter_length [OF g' out] obtain es where
      es: "elements False (A @ [Comma] @ v @ [Comma] @ cw) = Inr es"
      and len: "length out = length es" by blast
    from es elements_separated_comma [OF sA, of "v @ [Comma] @ cw"]
      elements_separated_comma [OF sv, of cw] elements_separated [OF sc]
    have "length es = length (exprs A) + length (exprs v) + length (exprs cw)" by auto
    moreover from False c have "getConditionWithOperators w = Inr c" by simp
    from conditions_placeholders [OF this cw plain(5)]
    have "placeholders c = length (exprs cw)" .
    ultimately show ?thesis using len cnt lA by simp
  qed
  with pq p0 show ?thesis by simp
qed

lemma updateFilter_flags:
  "updateFilter t ps (i, c) = Inr (fs, i', c') \<Longrightarrow>
     c' = (c \<or> (\<exists>p \<in> set ps. targetsCounter t p)) \<and>
     i' = (i \<and> \<not> (\<exists>p \<in> set ps. targetsCounter t p \<or> assignsToList t p))"
proof (induction ps arbitrary: i c fs)
  case Nil
  then show ?case by simp
next
  case (Cons p ps)
  show ?case
  proof (cases "columnByName t (columnName p)")
    case NoEntry
    with Cons.prems have "updateFilter t ps (i, c) = Inr (fs, i', c')" by simp
    from Cons.IH [OF this] NoEntry show ?thesis
      by (simp add: targetsCounter_def assignsToList_def)
  next
    case InheritedEntry
    with Cons.prems show ?thesis by simp
  next
    case (ColumnEntry column)
    note Some = ColumnEntry
    show ?thesis
    proof (cases "code column = ListType \<and> isQueryAssignment (val p)")
      case True
      with Some Cons.prems obtain fs' where "updateFilter t ps (False, c) = Inr (fs', i', c')"
        by (auto split: sum.splits prod.splits)
      from Cons.IH [OF this] Some True show ?thesis
        by (auto simp: targetsCounter_def assignsToList_def)
    next
      case False
      show ?thesis
      proof (cases "code column = CounterType")
        case True
        with False Some Cons.prems obtain fs' where "updateFilter t ps (False, True) = Inr (fs', i', c')"
          by (auto split: sum.splits prod.splits)
        from Cons.IH [OF this] Some True show ?thesis
          by (auto simp: targetsCounter_def assignsToList_def)
      next
        case nc: False
        with False Some Cons.prems obtain fs' where "updateFilter t ps (i, c) = Inr (fs', i', c')"
          by (auto split: sum.splits prod.splits)
        from Cons.IH [OF this] Some False nc show ?thesis
          by (auto simp: targetsCounter_def assignsToList_def)
      qed
    qed
  qed
qed

lemma join_nonempty: "xs \<noteq> [] \<Longrightarrow> \<forall>x \<in> set xs. x \<noteq> [] \<Longrightarrow> join sep xs \<noteq> []"
  by (induction xs rule: induct_list012) auto

lemma runGetter_separated:
  "separated ts \<Longrightarrow>
     runGetter ts doc di mi = mapE (evalElement doc di mi) (map Some (exprs ts))"
  by (simp add: runGetter_def applyGetter_def evaluator_def elements_separated)

lemma runGetter_Nil: "runGetter [] doc di mi = Inr []"
  by (simp add: runGetter_def applyGetter_def evaluator_def)

lemma runGetter_append:
  assumes "separated a" and "separated b"
  shows "runGetter (a @ [Comma] @ b) doc di mi =
           (case runGetter a doc di mi of Inl e \<Rightarrow> Inl e
            | Inr x \<Rightarrow> (case runGetter b doc di mi of Inl e \<Rightarrow> Inl e | Inr y \<Rightarrow> Inr (x @ y)))"
proof -
  have "separated (a @ [Comma] @ b)" using assms by (simp add: separated_append)
  note r = runGetter_separated [OF this] runGetter_separated [OF assms(1)]
    runGetter_separated [OF assms(2)]
  show ?thesis unfolding r by (simp add: mapE_append)
qed

lemma runGetter_nonempty:
  "separated ts \<Longrightarrow> runGetter ts doc di mi = Inr out \<Longrightarrow> out \<noteq> []"
  by (cases ts rule: separated.cases) (auto simp: runGetter_separated split: sum.splits)

lemma runGetter_join:
  assumes "\<forall>g \<in> set gs. separated g"
  shows "runGetter (join [Comma] gs) doc di mi = concatE (\<lambda>g. runGetter g doc di mi) gs"
  using assms
proof (induction gs rule: induct_list012)
  case 1
  show ?case by (simp add: runGetter_Nil concatE_def)
next
  case (2 g)
  show ?case by (simp add: concatE_def split: sum.splits)
next
  case (3 g h gs)
  have sj: "separated (join [Comma] (h # gs))"
    using 3(3) by (intro separated_join) auto
  have "runGetter (join [Comma] (g # h # gs)) doc di mi
      = (case runGetter g doc di mi of Inl e \<Rightarrow> Inl e
         | Inr x \<Rightarrow> (case runGetter (join [Comma] (h # gs)) doc di mi of Inl e \<Rightarrow> Inl e
                      | Inr y \<Rightarrow> Inr (x @ y)))"
    using runGetter_append [of g "join [Comma] (h # gs)"] 3(3) sj by simp
  also have "runGetter (join [Comma] (h # gs)) doc di mi = concatE (\<lambda>g. runGetter g doc di mi) (h # gs)"
    using 3(2) 3(3) by simp
  finally show ?case by (simp add: concatE_def split: sum.splits)
qed

lemma mapE_bind:
  "mapE f xs = Inr ys \<Longrightarrow>
     mapE g ys = mapE (\<lambda>x. case f x of Inl e \<Rightarrow> Inl e | Inr y \<Rightarrow> g y) xs"
  by (induction xs arbitrary: ys) (auto split: sum.splits)

text \<open>Running a value getter expression gives the parameters of the bindings, in order.\<close>

lemma runGetter_valueGetterExpression:
  assumes "valueGetterExpression ps objectName = Inr ts"
  shows "runGetter ts doc di mi =
           concatE (\<lambda>p. bindingParams (case objectName of None \<Rightarrow> DocObj | Some n \<Rightarrow> n) p doc di mi) ps"
proof -
  define on where "on = (case objectName of None \<Rightarrow> DocObj | Some n \<Rightarrow> n)"
  define f where "f = (\<lambda>p::pinfo. valueGetterSingle (Member on (propertyName p)) (propertyName p)
                              (val p) (fromModel p))"
  from assms obtain gs where gs: "mapE f ps = Inr gs" and ts: "ts = join [Comma] gs"
    by (auto simp: valueGetterExpression_def Let_def f_def on_def split: sum.splits)
  have sep: "\<forall>g \<in> set gs. separated g"
    by (rule mapE_all [OF gs]) (auto simp: f_def dest: valueGetterSingle_separated)
  have "runGetter ts doc di mi = concatE (\<lambda>g. runGetter g doc di mi) gs"
    unfolding ts by (rule runGetter_join [OF sep])
  also have "\<dots> = concatE (\<lambda>p. bindingParams on p doc di mi) ps"
    unfolding concatE_def mapE_bind [OF gs] bindingParams_def f_def ..
  finally show ?thesis by (simp add: on_def)
qed

lemma lookup_noMembership:
  "\<forall>kv \<in> set kvs. noMembership (snd kv) \<Longrightarrow> noMembership (lookup kvs k)"
proof (cases "map_of kvs k")
  case None
  then show ?thesis by (simp add: lookup_def)
next
  case (Some x)
  assume a: "\<forall>kv \<in> set kvs. noMembership (snd kv)"
  from Some have "(k, x) \<in> set kvs" by (rule map_of_SomeD)
  with a have "noMembership (snd (k, x))" by blast
  with Some show ?thesis by (simp add: lookup_def)
qed

lemma js_index_noMembership: "js_index v i = Inr x \<Longrightarrow> noMembership v \<Longrightarrow> noMembership x"
  by (cases v) (auto simp: lookup_noMembership split: if_splits)

lemma conversion_each:
  "valueGetterSingle e pn v None = Inr ts \<Longrightarrow> noMembership v \<Longrightarrow>
     valueGetterSingle e pn v (Some f) = Inr (map (convertTok pn) ts)"
proof (induction e pn v "None :: conv option" arbitrary: ts rule: valueGetterSingle.induct)
  case (1 e pn key v hc isIn)
  show ?case
  proof (cases hc)
    case True
    with "1.prems"(1) obtain v0 g0 v1 g1 where
      v0: "js_index v I0 = Inr v0" and g0: "valueGetterSingle (Index (Value e) I0) pn v0 None = Inr g0"
      and v1: "js_index v I1 = Inr v1" and g1: "valueGetterSingle (Index (Value e) I1) pn v1 None = Inr g1"
      and ts: "ts = g0 @ [Comma] @ g1"
      by (auto split: sum.splits)
    from "1.prems"(2) have nv: "noMembership v" by simp
    have c0: "valueGetterSingle (Index (Value e) I0) pn v0 (Some f) = Inr (map (convertTok pn) g0)"
      using "1.hyps"(1) [OF True v0 g0 js_index_noMembership [OF v0 nv]] .
    have c1: "valueGetterSingle (Index (Value e) I1) pn v1 (Some f) = Inr (map (convertTok pn) g1)"
      using "1.hyps"(2) [OF True v0 g0 v1 g1 js_index_noMembership [OF v1 nv]] .
    show ?thesis using True v0 v1 c0 c1 ts by simp
  next
    case False
    with "1.prems" show ?thesis by (auto simp: getMappingFunctionCall_def)
  qed
qed (auto simp: getMappingFunctionCall_def)

lemma condition_has_placeholder:
  "getSingleCondition c v = Inr s \<Longrightarrow> CHR ''?'' \<in> set s"
proof (induction c v arbitrary: s rule: getSingleCondition.induct)
  case (1 c key v hc isIn)
  then show ?case by (cases hc) (auto split: sum.splits)
qed auto

lemma surviving_idem: "surviving t (surviving t ps) = surviving t ps"
  by (simp add: surviving_def)

lemma updateFilter_idem: "updateFilter t (surviving t ps) flags = updateFilter t ps flags"
proof (induction t ps flags rule: updateFilter.induct)
  case (1 t i c)
  show ?case by (simp add: surviving_def)
next
  case (2 t p ps i c)
  show ?case
  proof (cases "columnByName t (columnName p)")
    case NoEntry
    with 2(1) show ?thesis by (simp add: surviving_def)
  next
    case (ColumnEntry column)
    with 2(2) [OF ColumnEntry] show ?thesis by (simp add: surviving_def)
  next
    case InheritedEntry
    then show ?thesis by (simp add: surviving_def)
  qed
qed

lemma lookup_wellFormed:
  "\<forall>kv \<in> set kvs. wellFormed (snd kv) \<Longrightarrow> wellFormed (lookup kvs k)"
proof (cases "map_of kvs k")
  case None
  then show ?thesis by (simp add: lookup_def)
next
  case (Some x)
  assume a: "\<forall>kv \<in> set kvs. wellFormed (snd kv)"
  from Some have "(k, x) \<in> set kvs" by (rule map_of_SomeD)
  with a have "wellFormed (snd (k, x))" by blast
  with Some show ?thesis by (simp add: lookup_def)
qed

lemma js_index_wellFormed: "js_index v i = Inr x \<Longrightarrow> wellFormed v \<Longrightarrow> wellFormed x"
  by (cases v) (auto simp: lookup_wellFormed split: if_splits)

lemma js_index_returns: "v \<noteq> JUndefined \<Longrightarrow> v \<noteq> JNull \<Longrightarrow> \<exists>x. js_index v i = Inr x"
  by (cases v) auto

lemma getSingleCondition_returns: "wellFormed v \<Longrightarrow> \<exists>s. getSingleCondition c v = Inr s"
proof (induction c v rule: getSingleCondition.induct)
  case (1 c key v hc isIn)
  show ?case
  proof (cases hc)
    case True
    with "1.prems" have nn: "v \<noteq> JUndefined" "v \<noteq> JNull" and wv: "wellFormed v" by simp_all
    from js_index_returns [OF nn] obtain v0 where v0: "js_index v I0 = Inr v0" by blast
    from js_index_returns [OF nn] obtain v1 where v1: "js_index v I1 = Inr v1" by blast
    from "1.IH"(1) [OF True v0 js_index_wellFormed [OF v0 wv]]
    obtain c0 where c0: "getSingleCondition c v0 = Inr c0" by blast
    from "1.IH"(2) [OF True v0 c0 v1 js_index_wellFormed [OF v1 wv]]
    obtain c1 where c1: "getSingleCondition c v1 = Inr c1" by blast
    from True v0 v1 c0 c1 show ?thesis by simp
  next
    case False
    then show ?thesis by simp
  qed
qed auto

lemma valueGetterSingle_returns: "wellFormed v \<Longrightarrow> \<exists>ts. valueGetterSingle e pn v fm = Inr ts"
proof (induction e pn v fm rule: valueGetterSingle.induct)
  case (1 e pn key v hc isIn fm)
  show ?case
  proof (cases hc)
    case True
    with "1.prems" have nn: "v \<noteq> JUndefined" "v \<noteq> JNull" and wv: "wellFormed v" by simp_all
    from js_index_returns [OF nn] obtain v0 where v0: "js_index v I0 = Inr v0" by blast
    from js_index_returns [OF nn] obtain v1 where v1: "js_index v I1 = Inr v1" by blast
    from "1.IH"(1) [OF True v0 js_index_wellFormed [OF v0 wv]]
    obtain g0 where g0: "valueGetterSingle (Index (Value e) I0) pn v0 fm = Inr g0" by blast
    from "1.IH"(2) [OF True v0 g0 v1 js_index_wellFormed [OF v1 wv]]
    obtain g1 where g1: "valueGetterSingle (Index (Value e) I1) pn v1 fm = Inr g1" by blast
    from True v0 v1 g0 g1 show ?thesis by simp
  next
    case False
    then show ?thesis by simp
  qed
qed auto

lemma mapE_returns: "\<forall>x \<in> set xs. \<exists>y. f x = Inr y \<Longrightarrow> \<exists>ys. mapE f xs = Inr ys"
proof (induction xs)
  case Nil
  show ?case by simp
next
  case (Cons x xs)
  then obtain y ys where "f x = Inr y" "mapE f xs = Inr ys" by auto
  then show ?case by simp
qed

lemma getConditionWithOperators_returns:
  "\<forall>p \<in> set ps. wellFormed (val p) \<Longrightarrow> \<exists>s. getConditionWithOperators ps = Inr s"
proof -
  assume "\<forall>p \<in> set ps. wellFormed (val p)"
  then have "\<forall>p \<in> set ps. \<exists>s. getSingleCondition (columnName p) (val p) = Inr s"
    by (simp add: getSingleCondition_returns)
  from mapE_returns [OF this] show ?thesis
    by (auto simp: getConditionWithOperators_def)
qed

lemma valueGetterExpression_returns:
  "\<forall>p \<in> set ps. wellFormed (val p) \<Longrightarrow> \<exists>ts. valueGetterExpression ps objectName = Inr ts"
proof -
  assume "\<forall>p \<in> set ps. wellFormed (val p)"
  then have "\<forall>p \<in> set ps. \<exists>ts. valueGetterSingle
       (Member (case objectName of None \<Rightarrow> DocObj | Some n \<Rightarrow> n) (propertyName p))
       (propertyName p) (val p) (fromModel p) = Inr ts"
    by (simp add: valueGetterSingle_returns)
  from mapE_returns [OF this] show ?thesis
    by (auto simp: valueGetterExpression_def Let_def)
qed

text \<open>A script made of pieces with one comma between them parses, also when a piece is empty.\<close>

lemma elements_piece: "a = [] \<or> separated a \<Longrightarrow> \<exists>es. elements False a = Inr es"
  by (auto simp: elements_separated)

lemma elements_pieces:
  assumes "a = [] \<or> separated a" and "\<exists>es. elements False rest = Inr es"
  shows "\<exists>es. elements False (a @ Comma # rest) = Inr es"
  using assms by (auto simp: elements_separated_comma)

lemma evaluator_returns:
  "\<exists>es. elements False ts = Inr es \<Longrightarrow> \<exists>g. evaluator ts = Inr g"
  by (auto simp: evaluator_def)

lemma valueGetterExpression_piece:
  "valueGetterExpression ps objectName = Inr ts \<Longrightarrow> ts = [] \<or> separated ts"
  using valueGetterExpression_shape [of ps objectName ts] by (cases "ps = []") auto

lemma assignment_piece:
  "assignmentGetterExpression ps objectName = [] \<or> separated (assignmentGetterExpression ps objectName)"
  using assignment_shape [of ps objectName] by (cases "ps = []") auto

lemma getSelect_returns:
  assumes "\<forall>p \<in> set ps. wellFormed (val p)"
  shows "\<exists>q. getSelect tn ks ps fs ob af lim = Inr q"
proof -
  from getConditionWithOperators_returns [OF assms]
  obtain c where "getConditionWithOperators ps = Inr c" by blast
  then show ?thesis by (simp add: getSelect_def Let_def)
qed

lemma selectParamsGetter_returns:
  assumes wf: "\<forall>p \<in> set ps. wellFormed (val p)" and safe: "safeNames ps"
  shows "\<exists>g. selectParamsGetter ps lim = Inr g"
proof -
  from valueGetterExpression_returns [OF wf]
  obtain ts where ts: "valueGetterExpression ps None = Inr ts" by blast
  from valueGetterExpression_shape [OF ts]
  have shape: "ps = [] \<longrightarrow> ts = []" "ps \<noteq> [] \<longrightarrow> separated ts" by simp_all
  have "\<exists>es. elements False (if isNumber lim
               then (if length ps > 0 then ts @ [Comma] else ts) @ [Elem (DocInfoKey ''limit'')]
               else ts) = Inr es"
  proof (cases "ps = []")
    case True
    with shape show ?thesis by simp
  next
    case False
    with shape have "separated ts" by simp
    with False show ?thesis
      using elements_pieces [of ts "[Elem (DocInfoKey ''limit'')]"] elements_piece [of ts]
      by simp
  qed
  from evaluator_returns [OF this] ts show ?thesis
    by (simp add: selectParamsGetter_tokens [OF safe] selectParamsScript_def)
qed

lemma getInsert_returns:
  assumes wf: "\<forall>p \<in> set (surviving t ps). wellFormed (val p)"
    and safe: "safeNames (surviving t ps)"
  shows "\<exists>r. getInsert t ks ps di ine af = Inr r"
proof -
  from valueGetterExpression_returns [OF wf]
  obtain ts where ts: "valueGetterExpression (surviving t ps) None = Inr ts" by blast
  have "\<exists>es. elements False (if (case di of None \<Rightarrow> False | Some d \<Rightarrow> isNumber (ttl d))
               then ts @ [Comma, Elem (DocInfoKey ''ttl'')] else ts) = Inr es"
    using elements_pieces [OF valueGetterExpression_piece [OF ts], of "[Elem (DocInfoKey ''ttl'')]"]
      elements_piece [OF valueGetterExpression_piece [OF ts]]
    by simp
  from evaluator_returns [OF this] ts show ?thesis
    unfolding getInsert_def Let_def surviving_def [symmetric]
    by (auto simp: insertParamsGetter_tokens [OF safe] insertParamsScript_def)
qed

lemma conditional_returns:
  assumes "\<forall>p \<in> set w. wellFormed (val p)"
  shows "\<exists>q. (if ie = Some True then Inr (q0 @ '' IF EXISTS'')
            else if length w > 0
            then (case getConditionWithOperators w of Inl e \<Rightarrow> Inl e
                  | Inr c \<Rightarrow> Inr (q0 @ '' IF '' @ c))
            else Inr q0) = Inr q"
proof -
  from getConditionWithOperators_returns [OF assms]
  obtain c where "getConditionWithOperators w = Inr c" by blast
  then show ?thesis by simp
qed

lemma identifying_wellFormed:
  "\<forall>p \<in> set (surviving t ps). wellFormed (val p) \<Longrightarrow>
     \<forall>p \<in> set (filter (\<lambda>p. columnName p \<in> pk) (surviving t ps)). wellFormed (val p)"
  by simp

lemma getDelete_returns:
  assumes s: "\<forall>p \<in> set (surviving t ps). wellFormed (val p)"
    and w: "\<forall>p \<in> set w. wellFormed (val p)"
    and safe: "safeNames (identifying t ps)" "safeNames w"
  shows "\<exists>r. getDelete t ks ps di w ie = Inr r"
proof -
  define I where "I = filter (\<lambda>p. columnName p \<in> primaryKeysOf t) (surviving t ps)"
  from valueGetterExpression_returns [OF identifying_wellFormed [OF s]]
  obtain v where v: "valueGetterExpression I None = Inr v" unfolding I_def by blast
  from valueGetterExpression_returns [OF w]
  obtain c where c: "valueGetterExpression w (Some DocInfoWhen) = Inr c" by blast
  have "\<exists>es. elements False (if length w > 0 then v @ [Comma] @ c else v) = Inr es"
    using elements_pieces [OF valueGetterExpression_piece [OF v]
        elements_piece [OF valueGetterExpression_piece [OF c]]]
      elements_piece [OF valueGetterExpression_piece [OF v]]
    by simp
  from evaluator_returns [OF this] v c
  have g: "\<exists>g. deleteParamsGetter (primaryKeysOf t) (surviving t ps) w = Inr g"
    by (auto simp: deleteParamsGetter_tokens [OF safe(1) [unfolded identifying_def] safe(2)]
          deleteParamsScript_def I_def)
  from conditional_returns [OF w]
  have q: "\<exists>q. getDeleteQuery (name t) ks (primaryKeysOf t) (surviving t ps) w ie
                  (docInfoDeleteOnlyColumns di) = Inr q"
    unfolding getDeleteQuery_def Let_def by blast
  from g q show ?thesis
    unfolding getDelete_def Let_def surviving_def [symmetric] by auto
qed

lemma getUpdate_returns:
  assumes s: "\<forall>p \<in> set (surviving t ps). wellFormed (val p)"
    and w: "\<forall>p \<in> set w. wellFormed (val p)"
    and inh: "\<forall>p \<in> set ps. columnByName t (columnName p) \<noteq> InheritedEntry"
    and safe: "safeNames (surviving t ps)" "safeNames w"
  shows "\<exists>r. getUpdate t ks ps di w ie af = Inr r"
proof -
  define I where "I = filter (\<lambda>p. columnName p \<in> primaryKeysOf t) (surviving t ps)"
  define A where "A = (if isNumber (docInfoTtl di) then [Elem (DocInfoKey ''ttl''), Comma] else [])
      @ assignmentGetterExpression
          (filter (\<lambda>p. columnName p \<notin> primaryKeysOf t) (surviving t ps)) None"
  from valueGetterExpression_returns [OF identifying_wellFormed [OF s]]
  obtain v where v: "valueGetterExpression I None = Inr v" unfolding I_def by blast
  from valueGetterExpression_returns [OF w]
  obtain c where c: "valueGetterExpression w (Some DocInfoWhen) = Inr c" by blast
  have tail: "\<exists>es. elements False (if length w > 0 then v @ [Comma] @ c else v) = Inr es"
    using elements_pieces [OF valueGetterExpression_piece [OF v]
        elements_piece [OF valueGetterExpression_piece [OF c]]]
      elements_piece [OF valueGetterExpression_piece [OF v]]
    by simp
  have mid: "\<exists>es. elements False (assignmentGetterExpression
          (filter (\<lambda>p. columnName p \<notin> primaryKeysOf t) (surviving t ps)) None
          @ Comma # (if length w > 0 then v @ [Comma] @ c else v)) = Inr es"
    by (rule elements_pieces [OF assignment_piece tail])
  have "\<exists>es. elements False (A @ Comma # (if length w > 0 then v @ [Comma] @ c else v)) = Inr es"
  proof (cases "isNumber (docInfoTtl di)")
    case True
    from mid obtain es where "elements False (assignmentGetterExpression
          (filter (\<lambda>p. columnName p \<notin> primaryKeysOf t) (surviving t ps)) None
          @ Comma # (if length w > 0 then v @ [Comma] @ c else v)) = Inr es" by blast
    with True show ?thesis by (simp add: A_def)
  next
    case False
    with mid show ?thesis by (simp add: A_def)
  qed
  from evaluator_returns [OF this] v c
  have g: "\<exists>g. updateParamsGetter (primaryKeysOf t) (surviving t ps) w (docInfoTtl di) = Inr g"
    by (auto simp: updateParamsGetter_tokens [OF safe] updateParamsScript_def Let_def I_def A_def)
  from conditional_returns [OF w]
  have q: "\<exists>q. getUpdateQuery (name t) ks (primaryKeysOf t) (surviving t ps) w ie
                  (docInfoTtl di) (JBool af) = Inr q"
    unfolding getUpdateQuery_def Let_def by blast
  from updateFilter_returns [OF inh, of "(True, False)"]
  obtain i c' where f: "updateFilter t ps (True, False) = Inr (surviving t ps, i, c')"
    by auto
  with g q show ?thesis
    unfolding getUpdate_def Let_def by auto
qed

text \<open>A well-formed construction returns its query text and its extraction routine.\<close>

lemma construction_returns:
  assumes "wellFormedConstruction c" and "safeConstruction c"
  shows "\<exists>q g. queryText c = Inr q \<and> extractionRoutine c = Inr g"
proof (cases c)
  case (Select tn ks ps fs ob af lim)
  with assms getSelect_returns [of ps tn ks fs ob af lim] selectParamsGetter_returns [of ps lim]
  show ?thesis by auto
next
  case (Insert t ks ps di ine af)
  with assms getInsert_returns [of t ps ks di ine af]
  show ?thesis by (auto simp: statementQuery_def statementGetter_def)
next
  case (Update t ks ps di w ie af)
  with assms getUpdate_returns [of t ps w ks di ie af]
  show ?thesis by (auto simp: statementQuery_def statementGetter_def)
next
  case (Delete t ks ps di w ie)
  with assms getDelete_returns [of t ps w ks di ie]
  show ?thesis by (auto simp: statementQuery_def statementGetter_def)
qed

lemma runGetter_single:
  "runGetter [Elem x] doc di mi =
     (case eval doc di mi x of Inl e \<Rightarrow> Inl e | Inr y \<Rightarrow> Inr [Some y])"
  by (simp add: runGetter_def applyGetter_def evaluator_def split: sum.splits)

lemma callFromModel_returns:
  "mi pn = Some g \<Longrightarrow> \<forall>x. \<exists>y. g x = Inr y \<Longrightarrow> \<exists>y. callFromModel mi pn x = Inr y"
  by (simp add: callFromModel_def)

lemma valueGetterSingle_literal:
  "\<not> isQueryOperator v \<Longrightarrow>
     valueGetterSingle e pn v fm =
       (if fm = None then Inr [Elem e] else Inr [Elem (getMappingFunctionCall pn e)])"
  by (cases v) auto

lemma literal_runs:
  assumes "\<not> isQueryOperator v"
    and "valueGetterSingle e pn v fm = Inr ts" and "eval doc di mi e = Inr v"
    and "fm \<noteq> None \<longrightarrow> (\<exists>g. mi pn = Some g \<and> (\<forall>x. \<exists>y. g x = Inr y))"
  shows "\<exists>out. runGetter ts doc di mi = Inr out"
proof (cases "fm = None")
  case True
  with assms(2,3) valueGetterSingle_literal [OF assms(1), of e pn fm] show ?thesis
    by (simp add: runGetter_single)
next
  case False
  with assms(4) obtain g where g: "mi pn = Some g" "\<forall>x. \<exists>y. g x = Inr y" by blast
  from callFromModel_returns [of mi pn g v, OF g] obtain y where "callFromModel mi pn v = Inr y"
    by blast
  moreover from False obtain f where "fm = Some f" by auto
  with assms(2) valueGetterSingle_literal [OF assms(1), of e pn fm]
  have "ts = [Elem (MappingFunctionCall pn e)]" by (simp add: getMappingFunctionCall_def)
  ultimately show ?thesis using assms(3) by (simp add: runGetter_single)
qed

lemma valueGetterSingle_runs:
  assumes "valueGetterSingle e pn v fm = Inr ts" and "eval doc di mi e = Inr v"
    and "wellFormed v"
    and "fm \<noteq> None \<longrightarrow> (\<exists>g. mi pn = Some g \<and> (\<forall>x. \<exists>y. g x = Inr y))"
  shows "\<exists>out. runGetter ts doc di mi = Inr out"
  using assms
proof (induction e pn v fm arbitrary: ts rule: valueGetterSingle.induct)
  case (1 e pn key v hc isIn fm)
  have call: "\<exists>y. callFromModel mi pn x = Inr y" if "fm \<noteq> None" for x
    using "1.prems"(4) that callFromModel_returns by blast
  show ?case
  proof (cases hc)
    case True
    with "1.prems"(1) obtain v0 g0 v1 g1 where
      v0: "js_index v I0 = Inr v0" and g0: "valueGetterSingle (Index (Value e) I0) pn v0 fm = Inr g0"
      and v1: "js_index v I1 = Inr v1" and g1: "valueGetterSingle (Index (Value e) I1) pn v1 fm = Inr g1"
      and ts: "ts = g0 @ [Comma] @ g1"
      by (auto split: sum.splits)
    from "1.prems"(3) have wv: "wellFormed v" by simp
    have e0: "eval doc di mi (Index (Value e) I0) = Inr v0" using "1.prems"(2) v0 by simp
    have e1: "eval doc di mi (Index (Value e) I1) = Inr v1" using "1.prems"(2) v1 by simp
    from "1.IH"(1) [OF True v0 g0 e0 js_index_wellFormed [OF v0 wv] "1.prems"(4)]
    obtain o0 where o0: "runGetter g0 doc di mi = Inr o0" by blast
    from "1.IH"(2) [OF True v0 g0 v1 g1 e1 js_index_wellFormed [OF v1 wv] "1.prems"(4)]
    obtain o1 where o1: "runGetter g1 doc di mi = Inr o1" by blast
    from runGetter_append [OF valueGetterSingle_separated [OF g0] valueGetterSingle_separated [OF g1]]
      o0 o1 ts
    show ?thesis by simp
  next
    case False
    show ?thesis
    proof (cases "isIn \<and> fm \<noteq> None")
      case True
      with False "1.prems"(3) obtain xs where xs: "v = JArr xs" by (cases v) auto
      from True call have "\<forall>x \<in> set xs. \<exists>y. callFromModel mi pn x = Inr y" by simp
      from mapE_returns [OF this] obtain ys where "mapE (callFromModel mi pn) xs = Inr ys" by blast
      with True False "1.prems"(1,2) xs show ?thesis
        by (auto simp: runGetter_single)
    next
      case noIn: False
      show ?thesis
      proof (cases "fm = None")
        case True
        with False "1.prems"(1,2) show ?thesis by (auto simp: runGetter_single)
      next
        case conv: False
        from call [OF conv] obtain y where "callFromModel mi pn v = Inr y" by blast
        with conv noIn False "1.prems"(1,2) show ?thesis
          by (auto simp: runGetter_single getMappingFunctionCall_def)
      qed
    qed
  qed
qed (rule literal_runs; simp)+

lemma runGetter_elements:
  "runGetter ts doc di mi = Inr out \<longleftrightarrow>
     (\<exists>es. elements False ts = Inr es \<and> mapE (evalElement doc di mi) es = Inr out)"
  by (auto simp: runGetter_def applyGetter_def evaluator_def split: sum.splits)

lemma runGetter_pieces:
  assumes a: "a = [] \<or> separated a"
    and ra: "\<exists>x. runGetter a doc di mi = Inr x"
    and rr: "\<exists>y. runGetter rest doc di mi = Inr y"
  shows "\<exists>z. runGetter (a @ Comma # rest) doc di mi = Inr z"
proof -
  from rr obtain y es where es: "elements False rest = Inr es"
    and y: "mapE (evalElement doc di mi) es = Inr y"
    by (auto simp: runGetter_elements)
  show ?thesis
  proof (cases "a = []")
    case True
    with es y show ?thesis by (simp add: runGetter_elements)
  next
    case False
    with a have sep: "separated a" by simp
    from ra obtain x where "runGetter a doc di mi = Inr x" by blast
    then have x: "mapE (evalElement doc di mi) (map Some (exprs a)) = Inr x"
      by (simp add: runGetter_separated [OF sep])
    from elements_separated_comma [OF sep, of rest] es
    have "elements False (a @ Comma # rest) = Inr (map Some (exprs a) @ es)" by simp
    with x y show ?thesis by (simp add: runGetter_elements mapE_append)
  qed
qed

lemma bindings_run:
  assumes ts: "valueGetterExpression ps objectName = Inr ts"
    and carried: "\<forall>p \<in> set ps. eval doc di mi
        (Member (case objectName of None \<Rightarrow> DocObj | Some n \<Rightarrow> n) (propertyName p)) = Inr (val p)"
    and wf: "\<forall>p \<in> set ps. wellFormed (val p)"
    and conv: "\<forall>p \<in> set ps. convertsBinding mi p"
  shows "\<exists>out. runGetter ts doc di mi = Inr out"
proof -
  define on where "on = (case objectName of None \<Rightarrow> DocObj | Some n \<Rightarrow> n)"
  have "\<forall>p \<in> set ps. \<exists>out. bindingParams on p doc di mi = Inr out"
  proof
    fix p assume p: "p \<in> set ps"
    from valueGetterSingle_returns [of "val p"] wf p obtain t where
      t: "valueGetterSingle (Member on (propertyName p)) (propertyName p) (val p) (fromModel p) = Inr t"
      by blast
    have "\<exists>out. runGetter t doc di mi = Inr out"
    proof (rule valueGetterSingle_runs [OF t])
      show "eval doc di mi (Member on (propertyName p)) = Inr (val p)"
        using carried p by (simp add: on_def)
      show "wellFormed (val p)" using wf p by simp
      show "fromModel p \<noteq> None \<longrightarrow>
              (\<exists>g. mi (propertyName p) = Some g \<and> (\<forall>x. \<exists>y. g x = Inr y))"
        using conv p by (simp add: convertsBinding_def)
    qed
    with t show "\<exists>out. bindingParams on p doc di mi = Inr out"
      by (simp add: bindingParams_def)
  qed
  from mapE_returns [OF this] obtain vs where
    "mapE (\<lambda>p. bindingParams on p doc di mi) ps = Inr vs" by blast
  then show ?thesis
    using runGetter_valueGetterExpression [OF ts, of doc di mi]
    by (simp add: concatE_def on_def)
qed

lemma assignments_run:
  assumes carried: "\<forall>p \<in> set ps. lookup doc (propertyName p) = val p"
    and conv: "\<forall>p \<in> set ps. convertsBinding mi p"
  shows "\<exists>out. runGetter (assignmentGetterExpression ps None) doc di mi = Inr out"
proof -
  define f where "f = (\<lambda>p::pinfo. let valueGetter =
             (if isQueryAssignment (val p) then Value (Member DocObj (propertyName p))
              else Member DocObj (propertyName p))
           in if fromModel p \<noteq> None
              then [Elem (getMappingFunctionCall (propertyName p) valueGetter)]
              else [Elem valueGetter])"
  have a: "assignmentGetterExpression ps None = join [Comma] (map f ps)"
    by (simp add: assignmentGetterExpression_def f_def Let_def)
  have "separated (f p)" for p by (simp add: f_def Let_def)
  then have sep: "\<forall>g \<in> set (map f ps). separated g" by auto
  have "\<forall>g \<in> set (map f ps). \<exists>out. runGetter g doc di mi = Inr out"
  proof
    fix g assume "g \<in> set (map f ps)"
    then obtain p where p: "p \<in> set ps" and g: "g = f p" by auto
    define x where "x = (if isQueryAssignment (val p) then Value (Member DocObj (propertyName p))
              else Member DocObj (propertyName p))"
    have "\<exists>v. eval doc di mi x = Inr v"
      using carried p by (cases "val p") (auto simp: x_def)
    then obtain v where v: "eval doc di mi x = Inr v" by blast
    show "\<exists>out. runGetter g doc di mi = Inr out"
    proof (cases "fromModel p = None")
      case True
      with g v show ?thesis by (simp add: f_def Let_def x_def runGetter_single)
    next
      case False
      with conv p obtain c where c: "mi (propertyName p) = Some c" "\<forall>x. \<exists>y. c x = Inr y"
        by (auto simp: convertsBinding_def)
      from callFromModel_returns [of mi "propertyName p" c v, OF c]
      obtain y where "callFromModel mi (propertyName p) v = Inr y" by blast
      moreover from False g have "g = [Elem (MappingFunctionCall (propertyName p) x)]"
        by (auto simp: f_def Let_def x_def getMappingFunctionCall_def)
      ultimately show ?thesis using v by (simp add: runGetter_single)
    qed
  qed
  from mapE_returns [OF this] obtain vs where
    "mapE (\<lambda>g. runGetter g doc di mi) (map f ps) = Inr vs" by blast
  then show ?thesis
    unfolding a using runGetter_join [OF sep, of doc di mi] by (simp add: concatE_def)
qed

lemma docInfoKey_runs: "di \<noteq> None \<Longrightarrow> \<exists>out. runGetter [Elem (DocInfoKey k)] doc di mi = Inr out"
  by (cases di) (auto simp: runGetter_single)

lemma doc_bindings_run:
  assumes "valueGetterExpression ps None = Inr ts"
    and "\<forall>p \<in> set ps. lookup doc (propertyName p) = val p"
    and "\<forall>p \<in> set ps. wellFormed (val p)"
    and "\<forall>p \<in> set ps. convertsBinding mi p"
  shows "\<exists>out. runGetter ts doc di mi = Inr out"
  using assms by (intro bindings_run [of ps None]) auto

lemma when_bindings_run:
  assumes ts: "valueGetterExpression w (Some DocInfoWhen) = Inr ts"
    and c: "carriesWhen w di" and ne: "w \<noteq> []"
    and wf: "\<forall>p \<in> set w. wellFormed (val p)"
    and conv: "\<forall>p \<in> set w. convertsBinding mi p"
  shows "\<exists>out. runGetter ts doc di mi = Inr out"
proof (rule bindings_run [OF ts _ wf conv])
  from c ne obtain d obj where "di = Some d" "when d = Some obj"
    "\<forall>p \<in> set w. lookup obj (propertyName p) = val p"
    by (auto simp: carriesWhen_def split: option.splits)
  then show "\<forall>p \<in> set w. eval doc di mi
        (Member (case Some DocInfoWhen of None \<Rightarrow> DocObj | Some n \<Rightarrow> n) (propertyName p)) = Inr (val p)"
    by simp
qed

lemma applied_getter:
  "evaluator ts = Inr g \<Longrightarrow> g doc di mi = runGetter ts doc di mi"
  by (simp add: runGetter_def applyGetter_def)

lemma select_runs:
  assumes g: "selectParamsGetter ps lim = Inr g"
    and carried: "\<forall>p \<in> set ps. lookup doc (propertyName p) = val p" "isNumber lim \<longrightarrow> di \<noteq> None"
    and wf: "\<forall>p \<in> set ps. wellFormed (val p)"
    and conv: "\<forall>p \<in> set ps. convertsBinding mi p"
    and safe: "safeNames ps"
  shows "\<exists>out. g doc di mi = Inr out"
proof -
  from g obtain ts where ts: "valueGetterExpression ps None = Inr ts"
    and r: "evaluator (if isNumber lim
               then (if length ps > 0 then ts @ [Comma] else ts) @ [Elem (DocInfoKey ''limit'')]
               else ts) = Inr g"
    using selectParamsGetter_tokens [OF safe, of lim]
    by (auto simp: selectParamsScript_def split: sum.splits)
  from doc_bindings_run [OF ts carried(1) wf conv]
  have rt: "\<exists>out. runGetter ts doc di mi = Inr out" .
  from valueGetterExpression_shape [OF ts]
  have shape: "ps = [] \<longrightarrow> ts = []" "ps \<noteq> [] \<longrightarrow> separated ts" by simp_all
  have "\<exists>out. runGetter (if isNumber lim
               then (if length ps > 0 then ts @ [Comma] else ts) @ [Elem (DocInfoKey ''limit'')]
               else ts) doc di mi = Inr out"
  proof (cases "isNumber lim")
    case True
    with carried(2) have l: "\<exists>out. runGetter [Elem (DocInfoKey ''limit'')] doc di mi = Inr out"
      by (simp add: docInfoKey_runs)
    show ?thesis
    proof (cases "ps = []")
      case True
      with shape l \<open>isNumber lim\<close> show ?thesis by simp
    next
      case False
      with shape have "ts = [] \<or> separated ts" by simp
      from runGetter_pieces [OF this rt l] False \<open>isNumber lim\<close> show ?thesis by simp
    qed
  next
    case False
    with rt show ?thesis by simp
  qed
  with applied_getter [OF r] show ?thesis by simp
qed

lemma insert_runs:
  assumes r: "getInsert t ks ps di0 ine af = Inr r"
    and carried: "\<forall>p \<in> set (surviving t ps). lookup doc (propertyName p) = val p"
      "isNumber (docInfoTtl di0) \<longrightarrow> di \<noteq> None"
    and wf: "\<forall>p \<in> set (surviving t ps). wellFormed (val p)"
    and conv: "\<forall>p \<in> set (surviving t ps). convertsBinding mi p"
    and safe: "safeNames (surviving t ps)"
  shows "\<exists>out. paramsGetter r doc di mi = Inr out"
proof -
  note tok = insertParamsGetter_tokens [OF safe, unfolded surviving_def]
  from r obtain ts where ts: "valueGetterExpression (surviving t ps) None = Inr ts"
    and g: "evaluator (if isNumber (docInfoTtl di0)
               then ts @ [Comma, Elem (DocInfoKey ''ttl'')] else ts) = Inr (paramsGetter r)"
    by (auto simp: getInsert_def tok insertParamsScript_def Let_def
          surviving_def docInfoTtl_def split: sum.splits option.splits)
  from doc_bindings_run [OF ts carried(1) wf conv]
  have rt: "\<exists>out. runGetter ts doc di mi = Inr out" .
  have "\<exists>out. runGetter (if isNumber (docInfoTtl di0)
               then ts @ [Comma, Elem (DocInfoKey ''ttl'')] else ts) doc di mi = Inr out"
  proof (cases "isNumber (docInfoTtl di0)")
    case True
    with carried(2) have l: "\<exists>out. runGetter [Elem (DocInfoKey ''ttl'')] doc di mi = Inr out"
      by (simp add: docInfoKey_runs)
    from runGetter_pieces [OF valueGetterExpression_piece [OF ts] rt l] True show ?thesis by simp
  next
    case False
    with rt show ?thesis by simp
  qed
  with applied_getter [OF g] show ?thesis by simp
qed

lemma tail_runs:
  assumes v: "valueGetterExpression I None = Inr v"
    and g: "(if length w > 0
           then (case valueGetterExpression w (Some DocInfoWhen) of Inl e \<Rightarrow> Inl e
                 | Inr c \<Rightarrow> Inr (pre @ v @ [Comma] @ c))
           else Inr (pre @ v)) = Inr script"
    and carried: "\<forall>p \<in> set I. lookup doc (propertyName p) = val p" "carriesWhen w di"
    and wf: "\<forall>p \<in> set I. wellFormed (val p)" "\<forall>p \<in> set w. wellFormed (val p)"
    and conv: "\<forall>p \<in> set I. convertsBinding mi p" "\<forall>p \<in> set w. convertsBinding mi p"
  shows "\<exists>tl. script = pre @ tl \<and> (\<exists>out. runGetter tl doc di mi = Inr out)"
proof -
  from doc_bindings_run [OF v carried(1) wf(1) conv(1)]
  have rv: "\<exists>out. runGetter v doc di mi = Inr out" .
  show ?thesis
  proof (cases "w = []")
    case True
    with g rv show ?thesis by auto
  next
    case False
    with g obtain c where c: "valueGetterExpression w (Some DocInfoWhen) = Inr c"
      and s: "script = pre @ v @ [Comma] @ c" by (auto split: sum.splits)
    from when_bindings_run [OF c carried(2) False wf(2) conv(2)]
    have rc: "\<exists>out. runGetter c doc di mi = Inr out" .
    from runGetter_pieces [OF valueGetterExpression_piece [OF v] rv rc] s show ?thesis by simp
  qed
qed

lemma delete_runs:
  assumes r: "getDelete t ks ps di0 w ie = Inr r"
    and carried: "\<forall>p \<in> set (surviving t ps). lookup doc (propertyName p) = val p"
      "carriesWhen w di"
    and wf: "\<forall>p \<in> set (surviving t ps). wellFormed (val p)" "\<forall>p \<in> set w. wellFormed (val p)"
    and conv: "\<forall>p \<in> set (surviving t ps). convertsBinding mi p" "\<forall>p \<in> set w. convertsBinding mi p"
    and safe: "safeNames (identifying t ps)" "safeNames w"
  shows "\<exists>out. paramsGetter r doc di mi = Inr out"
proof -
  define I where "I = filter (\<lambda>p. columnName p \<in> primaryKeysOf t) (surviving t ps)"
  note tok = deleteParamsGetter_tokens [OF safe(1) [unfolded identifying_def surviving_def] safe(2)]
  from r obtain script where s: "deleteParamsScript (primaryKeysOf t) (surviving t ps) w = Inr script"
    and g: "evaluator script = Inr (paramsGetter r)"
    by (auto simp: getDelete_def tok Let_def surviving_def split: sum.splits)
  from s obtain v where v: "valueGetterExpression I None = Inr v"
    by (auto simp: deleteParamsScript_def I_def split: sum.splits)
  from s v have sc: "(if length w > 0
           then (case valueGetterExpression w (Some DocInfoWhen) of Inl e \<Rightarrow> Inl e
                 | Inr c \<Rightarrow> Inr ([] @ v @ [Comma] @ c))
           else Inr ([] @ v)) = Inr script"
    by (auto simp: deleteParamsScript_def I_def split: sum.splits if_splits)
  have sub: "set I \<subseteq> set (surviving t ps)" by (auto simp: I_def)
  have cI: "\<forall>p \<in> set I. lookup doc (propertyName p) = val p" using carried(1) sub by blast
  have wI: "\<forall>p \<in> set I. wellFormed (val p)" using wf(1) sub by blast
  have vI: "\<forall>p \<in> set I. convertsBinding mi p" using conv(1) sub by blast
  from tail_runs [OF v sc cI carried(2) wI wf(2) vI conv(2)]
  have "\<exists>out. runGetter script doc di mi = Inr out" by auto
  with applied_getter [OF g] show ?thesis by simp
qed

lemma update_runs:
  assumes r: "getUpdate t ks ps di0 w ie af = Inr r"
    and carried: "\<forall>p \<in> set (surviving t ps). lookup doc (propertyName p) = val p"
      "isNumber (docInfoTtl di0) \<longrightarrow> di \<noteq> None" "carriesWhen w di"
    and wf: "\<forall>p \<in> set (surviving t ps). wellFormed (val p)" "\<forall>p \<in> set w. wellFormed (val p)"
    and conv: "\<forall>p \<in> set (surviving t ps). convertsBinding mi p" "\<forall>p \<in> set w. convertsBinding mi p"
    and safe: "safeNames (surviving t ps)" "safeNames w"
  shows "\<exists>out. paramsGetter r doc di mi = Inr out"
proof -
  define I where "I = filter (\<lambda>p. columnName p \<in> primaryKeysOf t) (surviving t ps)"
  define M where "M = filter (\<lambda>p. columnName p \<notin> primaryKeysOf t) (surviving t ps)"
  define T where "T = (if isNumber (docInfoTtl di0) then [Elem (DocInfoKey ''ttl''), Comma] else [])"
  define pre where "pre = T @ assignmentGetterExpression M None @ [Comma]"
  from r obtain fs i0 c0 where F0: "updateFilter t ps (True, False) = Inr (fs, i0, c0)"
    by (auto simp: getUpdate_def Let_def split: sum.splits prod.splits)
  from updateFilter_surviving [OF F0] F0
  have F: "updateFilter t ps (True, False) = Inr (surviving t ps, i0, c0)" by simp
  from r F
  obtain script where
    s: "updateParamsScript (primaryKeysOf t) (surviving t ps) w (docInfoTtl di0) = Inr script"
    and g: "evaluator script = Inr (paramsGetter r)"
    by (auto simp: getUpdate_def updateParamsGetter_tokens [OF safe] Let_def split: sum.splits)
  from s obtain v where v: "valueGetterExpression I None = Inr v"
    by (auto simp: updateParamsScript_def Let_def I_def split: sum.splits)
  from s v have sc: "(if length w > 0
           then (case valueGetterExpression w (Some DocInfoWhen) of Inl e \<Rightarrow> Inl e
                 | Inr c \<Rightarrow> Inr (pre @ v @ [Comma] @ c))
           else Inr (pre @ v)) = Inr script"
    by (auto simp: updateParamsScript_def Let_def I_def M_def T_def pre_def
          split: sum.splits if_splits)
  have sub: "set I \<subseteq> set (surviving t ps)" "set M \<subseteq> set (surviving t ps)"
    by (auto simp: I_def M_def)
  have cI: "\<forall>p \<in> set I. lookup doc (propertyName p) = val p" using carried(1) sub by blast
  have wI: "\<forall>p \<in> set I. wellFormed (val p)" using wf(1) sub by blast
  have vI: "\<forall>p \<in> set I. convertsBinding mi p" using conv(1) sub by blast
  from tail_runs [OF v sc cI carried(3) wI wf(2) vI conv(2)]
  obtain tl where tl: "script = pre @ tl" and rtl: "\<exists>out. runGetter tl doc di mi = Inr out"
    by auto
  have ra: "\<exists>out. runGetter (assignmentGetterExpression M None) doc di mi = Inr out"
    using carried(1) conv(1) sub(2) by (intro assignments_run) auto
  from runGetter_pieces [OF assignment_piece ra rtl]
  have mid: "\<exists>out. runGetter (assignmentGetterExpression M None @ Comma # tl) doc di mi = Inr out" .
  have "\<exists>out. runGetter script doc di mi = Inr out"
  proof (cases "isNumber (docInfoTtl di0)")
    case True
    with carried(2) have l: "\<exists>out. runGetter [Elem (DocInfoKey ''ttl'')] doc di mi = Inr out"
      by (simp add: docInfoKey_runs)
    have "[Elem (DocInfoKey ''ttl'')] = [] \<or> separated [Elem (DocInfoKey ''ttl'')]" by simp
    from runGetter_pieces [OF this l mid] True tl show ?thesis
      by (simp add: pre_def T_def)
  next
    case False
    with mid tl show ?thesis by (simp add: pre_def T_def)
  qed
  with applied_getter [OF g] show ?thesis by simp
qed

text \<open>
  The extraction routine of a well-formed construction returns a list on arguments that carry
  the construction, with a registry that converts its bindings.
\<close>

lemma extraction_returns:
  assumes "wellFormedConstruction c" and "carries c doc docInfo" and "converts c mappingInfo"
    and "extractionRoutine c = Inr g" and "safeConstruction c"
  shows "\<exists>out. g doc docInfo mappingInfo = Inr out"
proof (cases c)
  case (Select tn ks ps fs ob af lim)
  with assms show ?thesis
    using select_runs [of ps lim g doc docInfo mappingInfo] by simp
next
  case (Insert t ks ps di ine af)
  with assms obtain r where "getInsert t ks ps di ine af = Inr r" "g = paramsGetter r"
    by (auto simp: statementGetter_def split: sum.splits)
  with assms Insert show ?thesis
    using insert_runs [of t ks ps di ine af r doc docInfo mappingInfo] by simp
next
  case (Update t ks ps di w ie af)
  with assms obtain r where "getUpdate t ks ps di w ie af = Inr r" "g = paramsGetter r"
    by (auto simp: statementGetter_def split: sum.splits)
  with assms Update show ?thesis
    using update_runs [of t ks ps di w ie af r doc docInfo mappingInfo] by simp
next
  case (Delete t ks ps di w ie)
  with assms obtain r where "getDelete t ks ps di w ie = Inr r" "g = paramsGetter r"
    by (auto simp: statementGetter_def split: sum.splits)
  with assms Delete show ?thesis
    using delete_runs [of t ks ps di w ie r doc docInfo mappingInfo] by simp
qed

text \<open>On a regular construction the placeholders and the returned values are counted alike.\<close>

lemma regular_count:
  assumes "regular c" and "queryText c = Inr q" and "extractionRoutine c = Inr g"
    and "g doc docInfo mappingInfo = Inr out"
  shows "placeholders q = length out"
proof (cases c)
  case (Select tn ks ps fs ob af lim)
  with assms show ?thesis
    using select_placeholders [of tn ks ps fs ob af lim q g doc docInfo mappingInfo out] by simp
next
  case (Insert t ks ps di ine af)
  with assms obtain r where "getInsert t ks ps di ine af = Inr r" "q = query r" "g = paramsGetter r"
    by (auto simp: statementQuery_def statementGetter_def split: sum.splits)
  with assms Insert show ?thesis
    using insert_placeholders [of t ks ps di ine af r doc docInfo mappingInfo out] by simp
next
  case (Update t ks ps di w ie af)
  with assms obtain r where "getUpdate t ks ps di w ie af = Inr r" "q = query r" "g = paramsGetter r"
    by (auto simp: statementQuery_def statementGetter_def split: sum.splits)
  with assms Update show ?thesis
    using update_placeholders [of t ks ps di w ie af r doc docInfo mappingInfo out] by simp
next
  case (Delete t ks ps di w ie)
  with assms obtain r where "getDelete t ks ps di w ie = Inr r" "q = query r" "g = paramsGetter r"
    by (auto simp: statementQuery_def statementGetter_def split: sum.splits)
  with assms Delete show ?thesis
    using delete_placeholders [of t ks ps di w ie r doc docInfo mappingInfo out] by simp
qed

lemma updateParamsScript_parses:
  assumes "updateParamsScript pk F w ttl0 = Inr s"
  shows "\<exists>g. evaluator s = Inr g"
proof -
  define A where "A = (if isNumber ttl0 then [Elem (DocInfoKey ''ttl''), Comma] else [])
      @ assignmentGetterExpression (filter (\<lambda>p. columnName p \<notin> pk) F) None"
  from assms obtain v where v: "valueGetterExpression (filter (\<lambda>p. columnName p \<in> pk) F) None = Inr v"
    by (auto simp: updateParamsScript_def Let_def split: sum.splits)
  have "\<exists>tail. s = A @ Comma # tail \<and> (\<exists>es. elements False tail = Inr es)"
  proof (cases "w = []")
    case True
    with assms v have "s = A @ Comma # v"
      by (simp add: updateParamsScript_def Let_def A_def)
    with elements_piece [OF valueGetterExpression_piece [OF v]] show ?thesis by blast
  next
    case False
    with assms v obtain c where c: "valueGetterExpression w (Some DocInfoWhen) = Inr c"
      and s: "s = A @ Comma # (v @ Comma # c)"
      by (auto simp: updateParamsScript_def Let_def A_def split: sum.splits)
    from elements_pieces [OF valueGetterExpression_piece [OF v]
        elements_piece [OF valueGetterExpression_piece [OF c]]] s
    show ?thesis by blast
  qed
  then obtain tail where s: "s = A @ Comma # tail" and t: "\<exists>es. elements False tail = Inr es"
    by blast
  from elements_pieces [OF assignment_piece t]
  obtain es where "elements False (assignmentGetterExpression
        (filter (\<lambda>p. columnName p \<notin> pk) F) None @ Comma # tail) = Inr es" by blast
  then have "\<exists>es. elements False (A @ Comma # tail) = Inr es"
    by (simp add: A_def)
  from evaluator_returns [OF this] s show ?thesis by simp
qed

lemma updateParamsScript_error:
  "(updateParamsScript pk F w x = Inl e) = (updateParamsScript pk F w y = Inl e)"
  by (auto simp: updateParamsScript_def Let_def split: sum.splits)

lemma updateParamsGetter_error:
  assumes "safeNames F" and "safeNames w"
  shows "(updateParamsGetter pk F w x = Inl e) = (updateParamsGetter pk F w y = Inl e)"
proof -
  have "(updateParamsGetter pk F w z = Inl e) = (updateParamsScript pk F w z = Inl e)" for z
    using updateParamsScript_parses [of pk F w z]
    by (cases "updateParamsScript pk F w z") (auto simp: updateParamsGetter_tokens [OF assms])
  then show ?thesis using updateParamsScript_error [of pk F w x e y] by simp
qed

text \<open>
  The options have no part in the text of an UPDATE: whatever time-to-live they carry, the
  text is the same (for property names that stand for themselves between quotes).
\<close>

lemma update_text_ignores_options:
  assumes safe: "safeNames (surviving t ps)" "safeNames w"
  shows "statementQuery (getUpdate t ks ps di w ie af)
           = statementQuery (getUpdate t ks ps di' w ie af)"
proof (cases "updateFilter t ps (True, False)")
  case (Inl err)
  then show ?thesis by (simp add: getUpdate_def Let_def)
next
  case (Inr res)
  then obtain fs i c where f0: "updateFilter t ps (True, False) = Inr (fs, i, c)"
    by (cases res) auto
  from updateFilter_surviving [OF f0] have fs: "fs = surviving t ps" by simp
  note f = f0
  have sf: "safeNames fs" using safe(1) fs by simp
  note err = updateParamsGetter_error [OF sf safe(2)]
  define Q where "Q = getUpdateQuery (name t) ks (primaryKeysOf t) fs w ie JUndefined (JBool af)"
  have q: "getUpdateQuery (name t) ks (primaryKeysOf t) fs w ie x (JBool af) = Q" for x
    by (simp add: getUpdateQuery_def Let_def Q_def)
  have e: "statementQuery (getUpdate t ks ps d w ie af) =
      (case Q of Inl e \<Rightarrow> Inl e
       | Inr q \<Rightarrow> (case updateParamsGetter (primaryKeysOf t) fs w (docInfoTtl d) of
                     Inl e \<Rightarrow> Inl e | Inr g \<Rightarrow> Inr q))" for d
  proof -
    have g: "getUpdate t ks ps d w ie af =
      (case Q of Inl e \<Rightarrow> Inl e
       | Inr q \<Rightarrow> (case updateParamsGetter (primaryKeysOf t) fs w (docInfoTtl d) of
            Inl e \<Rightarrow> Inl e
          | Inr g \<Rightarrow> Inr \<lparr> query = q, paramsGetter = g,
                    isIdempotent = (i \<and> length w = 0 \<and> ie \<noteq> Some True), isCounter = c \<rparr>))"
      unfolding getUpdate_def Let_def f sum.case prod.case q ..
    show ?thesis
    proof (cases Q)
      case (Inl e)
      with g show ?thesis by (simp add: statementQuery_def)
    next
      case (Inr q')
      with g show ?thesis
        by (cases "updateParamsGetter (primaryKeysOf t) fs w (docInfoTtl d)")
           (simp_all add: statementQuery_def)
    qed
  qed
  have "(case updateParamsGetter (primaryKeysOf t) fs w x of Inl e \<Rightarrow> Inl e | Inr g \<Rightarrow> Inr q)
      = (case updateParamsGetter (primaryKeysOf t) fs w y of Inl e \<Rightarrow> Inl e | Inr g \<Rightarrow> (Inr q :: error + string))"
    for x y q
  proof (cases "updateParamsGetter (primaryKeysOf t) fs w x")
    case (Inl e)
    with err [where pk = "primaryKeysOf t" and x = x and e = e and y = y] show ?thesis by simp
  next
    case (Inr g)
    have "\<exists>g'. updateParamsGetter (primaryKeysOf t) fs w y = Inr g'"
    proof (cases "updateParamsGetter (primaryKeysOf t) fs w y")
      case (Inl e)
      with err [where pk = "primaryKeysOf t" and x = x and e = e and y = y] Inr show ?thesis by simp
    qed simp
    with Inr show ?thesis by auto
  qed
  then show ?thesis unfolding e by (cases Q) auto
qed

lemma update_flags_returned:
  assumes "getUpdate t ks ps di w ie af = Inr r"
  shows "(w \<noteq> [] \<or> ie = Some True \<longrightarrow> \<not> isIdempotent r) \<and>
         ((\<exists>p \<in> set ps. targetsCounter t p) \<longrightarrow> \<not> isIdempotent r \<and> isCounter r) \<and>
         ((\<exists>p \<in> set ps. assignsToList t p) \<longrightarrow> \<not> isIdempotent r) \<and>
         (w = [] \<and> ie \<noteq> Some True \<and> (\<forall>p \<in> set ps. \<not> targetsCounter t p \<and> \<not> assignsToList t p)
            \<longrightarrow> isIdempotent r \<and> \<not> isCounter r)"
proof -
  from assms obtain fs i c where f: "updateFilter t ps (True, False) = Inr (fs, i, c)"
    by (auto simp: getUpdate_def Let_def split: sum.splits prod.splits)
  from assms f have r: "isIdempotent r = (i \<and> length w = 0 \<and> ie \<noteq> Some True)" "isCounter r = c"
    by (auto simp: getUpdate_def Let_def split: sum.splits)
  from updateFilter_flags [OF f] r show ?thesis by auto
qed

lemma delete_only_columns_returned:
  assumes r: "getDelete t ks ps di w ie = Inr r"
    and only: "truthy (docInfoDeleteOnlyColumns di)"
    and without: "\<not> truthy (docInfoDeleteOnlyColumns di0)"
  shows "\<exists>r0 rest. getDelete t ks ps di0 w ie = Inr r0 \<and> query r0 = ''DELETE FROM '' @ rest \<and>
           (if join '', '' (map columnName (mutated t ps)) \<noteq> []
            then query r = ''DELETE '' @ join '', '' (map columnName (mutated t ps)) @ '' FROM '' @ rest
            else query r = query r0) \<and>
           (mutated t ps = [] \<longrightarrow> join '', '' (map columnName (mutated t ps)) = []) \<and>
           (mutated t ps \<noteq> [] \<and> (\<forall>p \<in> set (mutated t ps). columnName p \<noteq> [])
              \<longrightarrow> join '', '' (map columnName (mutated t ps)) \<noteq> [])"
proof -
  define pk where "pk = primaryKeysOf t"
  define F where "F = surviving t ps"
  define cols where "cols = join '', '' (map columnName (mutated t ps))"
  define wh where "wh = ks @ ''.'' @ name t @ '' WHERE ''
            @ join '' AND '' (map (\<lambda>p. columnName p @ '' = ?'') (filter (\<lambda>p. columnName p \<in> pk) F))"
  from r obtain g where g: "deleteParamsGetter pk F w = Inr g"
    and q: "getDeleteQuery (name t) ks pk F w ie (docInfoDeleteOnlyColumns di) = Inr (query r)"
    by (auto simp: getDelete_def Let_def pk_def F_def surviving_def split: sum.splits)
  have m: "filter (\<lambda>p. columnName p \<notin> pk) F = mutated t ps"
    by (simp add: mutated_def pk_def F_def)
  from q only obtain tl where
    tl: "(if ie = Some True then Inr '' IF EXISTS''
            else if length w > 0
            then (case getConditionWithOperators w of Inl e \<Rightarrow> Inl e | Inr c \<Rightarrow> Inr ('' IF '' @ c))
            else Inr []) = Inr tl"
    and qr: "query r = ''DELETE'' @ (if cols \<noteq> [] then '' '' @ cols else []) @ '' FROM '' @ wh @ tl"
    by (auto simp: getDeleteQuery_def Let_def m cols_def wh_def split: if_splits sum.splits)
  from tl without have q0: "getDeleteQuery (name t) ks pk F w ie (docInfoDeleteOnlyColumns di0)
                      = Inr (''DELETE FROM '' @ wh @ tl)"
    by (auto simp: getDeleteQuery_def Let_def wh_def split: if_splits sum.splits)
  with g have r0: "getDelete t ks ps di0 w ie
      = Inr \<lparr>query = ''DELETE FROM '' @ wh @ tl, paramsGetter = g,
              isIdempotent = (length w = 0 \<and> ie \<noteq> Some True)\<rparr>"
    by (simp add: getDelete_def Let_def pk_def F_def surviving_def)
  have ne: "mutated t ps \<noteq> [] \<and> (\<forall>p \<in> set (mutated t ps). columnName p \<noteq> []) \<longrightarrow> cols \<noteq> []"
    unfolding cols_def using join_nonempty [of "map columnName (mutated t ps)" "'', ''"] by simp
  have em: "mutated t ps = [] \<longrightarrow> cols = []" by (simp add: cols_def)
  from r0 qr ne em show ?thesis unfolding cols_def by auto
qed

lemma select_conditions_returned:
  assumes q: "getSelect tn ks ps fs ob af lim = Inr q"
  shows "\<exists>conds rest.
           length conds = length ps \<and>
           (\<forall>i < length ps.
              getSingleCondition (columnName (ps ! i)) (val (ps ! i)) = Inr (conds ! i) \<and>
              CHR ''?'' \<in> set (conds ! i)) \<and>
           (ps \<noteq> [] \<longrightarrow>
              q = ''SELECT '' @ (if length fs > 0 then join '', '' (map columnName fs) else ''*'')
                    @ '' FROM '' @ ks @ ''.'' @ tn @ '' WHERE '' @ join '' AND '' conds @ rest)"
proof -
  have "\<exists>conds rest. mapE (\<lambda>p. getSingleCondition (columnName p) (val p)) ps = Inr conds \<and>
          (ps \<noteq> [] \<longrightarrow>
              q = ''SELECT '' @ (if length fs > 0 then join '', '' (map columnName fs) else ''*'')
                    @ '' FROM '' @ ks @ ''.'' @ tn @ '' WHERE '' @ join '' AND '' conds @ rest)"
  proof (cases "ps = []")
    case True
    then show ?thesis by simp
  next
    case False
    with q show ?thesis
      by (auto simp: getSelect_def getConditionWithOperators_def Let_def split: sum.splits if_splits)
  qed
  then obtain conds rest where
    conds: "mapE (\<lambda>p. getSingleCondition (columnName p) (val p)) ps = Inr conds"
    and qq: "ps \<noteq> [] \<longrightarrow>
              q = ''SELECT '' @ (if length fs > 0 then join '', '' (map columnName fs) else ''*'')
                    @ '' FROM '' @ ks @ ''.'' @ tn @ '' WHERE '' @ join '' AND '' conds @ rest"
    by blast
  have cne: "getSingleCondition (columnName (ps ! i)) (val (ps ! i)) = Inr (conds ! i) \<and>
             CHR ''?'' \<in> set (conds ! i)" if "i < length ps" for i
    using mapE_nth [OF conds that] condition_has_placeholder by auto
  from mapE_length [OF conds] cne qq show ?thesis
    by blast
qed

text \<open>The script of one binding alone returns the parameters of the binding.\<close>

lemma select_single:
  assumes "safeName (propertyName p)"
  shows "applyGetter (selectParamsGetter [p] JUndefined) doc di mi = bindingParams DocObj p doc di mi"
proof -
  have "safeNames [p]" using assms by (simp add: safeNames_def)
  from selectParamsGetter_tokens [OF this, of JUndefined] show ?thesis
    by (simp add: selectParamsScript_def valueGetterExpression_def bindingParams_def
          runGetter_def applyGetter_def split: sum.splits)
qed

lemma select_values_returned:
  assumes g: "selectParamsGetter ps lim = Inr g"
    and out: "g doc docInfo mappingInfo = Inr out"
    and safe: "safeNames ps"
  shows "\<exists>vals limitValue.
           length vals = length ps \<and>
           (\<forall>i < length ps.
              applyGetter (selectParamsGetter [ps ! i] JUndefined) doc docInfo mappingInfo
                = Inr (vals ! i) \<and>
              vals ! i \<noteq> []) \<and>
           out = concat vals @ limitValue \<and>
           length limitValue = (if isNumber lim then 1 else 0)"
proof -
  define w where "w = (if isNumber lim
               then (if length ps > 0 then [Comma] else []) @ [Elem (DocInfoKey ''limit'')]
               else [])"
  from g obtain ts where ts: "valueGetterExpression ps None = Inr ts"
    and r0: "evaluator (if isNumber lim
               then (if length ps > 0 then ts @ [Comma] else ts) @ [Elem (DocInfoKey ''limit'')]
               else ts) = Inr g"
    using selectParamsGetter_tokens [OF safe, of lim]
    by (auto simp: selectParamsScript_def split: sum.splits)
  have "(if isNumber lim
               then (if length ps > 0 then ts @ [Comma] else ts) @ [Elem (DocInfoKey ''limit'')]
               else ts) = ts @ w" by (simp add: w_def)
  with r0 have r: "evaluator (ts @ w) = Inr g" by simp
  from r out have run: "runGetter (ts @ w) doc docInfo mappingInfo = Inr out"
    by (simp add: runGetter_def applyGetter_def)
  from valueGetterExpression_shape [OF ts]
  have shape: "ps = [] \<longrightarrow> ts = []" "ps \<noteq> [] \<longrightarrow> separated ts" by simp_all
  have rts: "runGetter ts doc docInfo mappingInfo
               = concatE (\<lambda>p. bindingParams DocObj p doc docInfo mappingInfo) ps"
    using runGetter_valueGetterExpression [OF ts] by simp
  have "\<exists>vals limitValue. mapE (\<lambda>p. bindingParams DocObj p doc docInfo mappingInfo) ps = Inr vals
          \<and> out = concat vals @ limitValue \<and> length limitValue = (if isNumber lim then 1 else 0)"
  proof (cases "ps = []")
    case True
    with shape run show ?thesis
      by (auto simp: w_def runGetter_def applyGetter_def evaluator_def
            split: if_splits sum.splits)
  next
    case False
    with shape have sep: "separated ts" by simp
    show ?thesis
    proof (cases "isNumber lim")
      case True
      with False have w: "ts @ w = ts @ [Comma] @ [Elem (DocInfoKey ''limit'')]" by (simp add: w_def)
      have "separated [Elem (DocInfoKey ''limit'')]" by simp
      from runGetter_append [OF sep this] run w rts True show ?thesis
        by (auto simp: concatE_def runGetter_def applyGetter_def evaluator_def
              split: sum.splits)
    next
      case nolimit: False
      with run rts show ?thesis by (auto simp: w_def concatE_def split: sum.splits)
    qed
  qed
  then obtain vals limitValue where
    vals: "mapE (\<lambda>p. bindingParams DocObj p doc docInfo mappingInfo) ps = Inr vals"
    and o: "out = concat vals @ limitValue"
    and l: "length limitValue = (if isNumber lim then 1 else 0)" by blast
  have vne: "applyGetter (selectParamsGetter [ps ! i] JUndefined) doc docInfo mappingInfo
               = Inr (vals ! i) \<and> vals ! i \<noteq> []"
    if "i < length ps" for i
  proof -
    from mapE_nth [OF vals that]
    have b: "bindingParams DocObj (ps ! i) doc docInfo mappingInfo = Inr (vals ! i)" .
    then obtain t where
      t: "valueGetterSingle (Member DocObj (propertyName (ps ! i))) (propertyName (ps ! i))
            (val (ps ! i)) (fromModel (ps ! i)) = Inr t"
      and rt: "runGetter t doc docInfo mappingInfo = Inr (vals ! i)"
      by (auto simp: bindingParams_def split: sum.splits)
    have "safeName (propertyName (ps ! i))" using safe that by (simp add: safeNames_def)
    from select_single [OF this] runGetter_nonempty [OF valueGetterSingle_separated [OF t] rt] b
    show ?thesis by simp
  qed
  from mapE_length [OF vals] vne o l show ?thesis
    by blast
qed

text \<open>
  With conversion, the parameters of a value are the parameters without conversion, each
  converted.
\<close>

lemma membership_length:
  "valueGetterSingle e pn v fm = Inr ts \<Longrightarrow> length (membership v) = length (exprs ts)"
proof (induction e pn v fm arbitrary: ts rule: valueGetterSingle.induct)
  case (1 e pn key v hc isIn fm)
  show ?case
  proof (cases hc)
    case True
    with "1.prems"(1) obtain v0 g0 v1 g1 where
      v0: "js_index v I0 = Inr v0" and g0: "valueGetterSingle (Index (Value e) I0) pn v0 fm = Inr g0"
      and v1: "js_index v I1 = Inr v1" and g1: "valueGetterSingle (Index (Value e) I1) pn v1 fm = Inr g1"
      and ts: "ts = g0 @ [Comma] @ g1"
      by (auto split: sum.splits)
    from "1.IH"(1) [OF True v0 g0] "1.IH"(2) [OF True v0 g0 v1 g1] True v0 v1 ts
    show ?thesis by simp
  next
    case False
    with "1.prems" show ?thesis by (auto split: if_splits)
  qed
qed (auto split: if_splits)

lemma runGetter_count:
  "separated ts \<Longrightarrow> runGetter ts doc di mi = Inr out \<Longrightarrow> length out = length (exprs ts)"
  by (auto simp: runGetter_separated dest: mapE_length)

lemma callFromModel_registered: "mi pn = Some g \<Longrightarrow> callFromModel mi pn = g"
  by (rule ext) (simp add: callFromModel_def)

lemma conversion_runs:
  assumes "valueGetterSingle e pn v None = Inr t0"
    and "valueGetterSingle e pn v (Some f) = Inr t1"
    and "mi pn = Some g" and "runGetter t0 doc di mi = Inr raw"
  shows "runGetter t1 doc di mi = mapE (convertParam g) (zip (membership v) raw)"
  using assms
proof (induction e pn v "None :: conv option" arbitrary: t0 t1 raw rule: valueGetterSingle.induct)
  case (1 e pn key v hc isIn)
  note reg = callFromModel_registered [of mi pn g, OF "1.prems"(3)]
  show ?case
  proof (cases hc)
    case True
    with "1.prems"(1) obtain v0 a0 v1 b0 where
      v0: "js_index v I0 = Inr v0" and a0: "valueGetterSingle (Index (Value e) I0) pn v0 None = Inr a0"
      and v1: "js_index v I1 = Inr v1" and b0: "valueGetterSingle (Index (Value e) I1) pn v1 None = Inr b0"
      and t0: "t0 = a0 @ [Comma] @ b0"
      by (auto split: sum.splits)
    from True "1.prems"(2) v0 v1 obtain a1 b1 where
      a1: "valueGetterSingle (Index (Value e) I0) pn v0 (Some f) = Inr a1"
      and b1: "valueGetterSingle (Index (Value e) I1) pn v1 (Some f) = Inr b1"
      and t1: "t1 = a1 @ [Comma] @ b1"
      by (auto split: sum.splits)
    note sa0 = valueGetterSingle_separated [OF a0] and sb0 = valueGetterSingle_separated [OF b0]
    note sa1 = valueGetterSingle_separated [OF a1] and sb1 = valueGetterSingle_separated [OF b1]
    from "1.prems"(4) runGetter_append [OF sa0 sb0, of doc di mi] obtain ra rb where
      ra: "runGetter a0 doc di mi = Inr ra" and rb: "runGetter b0 doc di mi = Inr rb"
      and raw: "raw = ra @ rb"
      unfolding t0 by (auto split: sum.splits)
    have ca: "runGetter a1 doc di mi = mapE (convertParam g) (zip (membership v0) ra)"
      using "1.hyps"(1) [OF True v0 a0 a1 "1.prems"(3) ra] .
    have cb: "runGetter b1 doc di mi = mapE (convertParam g) (zip (membership v1) rb)"
      using "1.hyps"(2) [OF True v0 a0 v1 b0 b1 "1.prems"(3) rb] .
    have la: "length (membership v0) = length ra"
      using membership_length [OF a0] runGetter_count [OF sa0 ra] by simp
    have m: "membership (JOp key v hc isIn) = membership v0 @ membership v1"
      using True v0 v1 by simp
    show ?thesis
      unfolding t1 runGetter_append [OF sa1 sb1] ca cb m raw
      by (simp add: la mapE_append)
  next
    case False
    show ?thesis
    proof (cases isIn)
      case True
      with False "1.prems"(1,2) have t: "t0 = [Elem (Value e)]" "t1 = [Elem (MapEach (Value e) pn)]"
        by simp_all
      from "1.prems"(4) obtain x where x: "eval doc di mi (Value e) = Inr x" and raw: "raw = [Some x]"
        unfolding t by (auto simp: runGetter_single split: sum.splits)
      show ?thesis
        unfolding t raw using x False True
        by (cases x) (simp_all add: runGetter_single reg split: sum.splits)
    next
      case noIn: False
      with False "1.prems"(1,2) have t: "t0 = [Elem (Value e)]"
        "t1 = [Elem (MappingFunctionCall pn (Value e))]"
        by (simp_all add: getMappingFunctionCall_def)
      from "1.prems"(4) obtain x where x: "eval doc di mi (Value e) = Inr x" and raw: "raw = [Some x]"
        unfolding t by (auto simp: runGetter_single split: sum.splits)
      show ?thesis
        unfolding t raw using x False noIn
        by (simp add: runGetter_single reg split: sum.splits)
    qed
  qed
qed (auto simp: runGetter_single getMappingFunctionCall_def callFromModel_def split: sum.splits)

subsection \<open>Property names with a quote\<close>

text \<open>
  A property name is written between the quotes of the script as it is. With the name
  \<open>o'k\<close> the text is no script: compiling it is a \<open>SyntaxError\<close>, for the getter of a
  SELECT as for an INSERT. With the name \<open>a'], doc['b\<close> the text is the script that reads
  the properties \<open>a\<close> and \<open>b\<close>: one binding and one placeholder, two values.
\<close>

lemma quoted_name_no_script:
  "applyGetter (selectParamsGetter [exQuoted] JUndefined) [] None exMapping = Inl SyntaxError \<and>
   statementQuery (getInsert exTable ''ks'' [exQuoted] None None False) = Inl SyntaxError"
  by code_simp

lemma spliced_name_two_values:
  "getSelect ''t'' ''ks'' [exSpliced] [] [] False JUndefined
     = Inr ''SELECT * FROM ks.t WHERE id = ? ALLOW FILTERING'' \<and>
   applyGetter (selectParamsGetter [exSpliced] JUndefined) [(''a'', JNum 1), (''b'', JNum 2)]
       None exMapping
     = Inr [Some (JNum 1), Some (JNum 2)]"
  by code_simp

subsection \<open>The time-to-live clause of UPDATE\<close>

text \<open>
  C2. An update whose options carry a numeric time-to-live should have \<open>USING TTL ?\<close> between
  the table reference and \<open>SET\<close>. On the example table, with a time-to-live of 60, the text
  returned by \<open>getUpdate\<close> has no such clause, while the parameter getter does return the
  time-to-live first: the query has two placeholders and the getter returns three values.
  (By \<open>update_text_ignores_options\<close> the text of an UPDATE is the same whatever the options
  carry, when the property names stand for themselves between quotes.)
\<close>

theorem update_ttl_clause_missing:
  "statementQuery (getUpdate exTable ''ks'' [exName, exId] (Some exDocInfo) [] None False)
     = Inr ''UPDATE ks.t SET name = ? WHERE id = ?'' \<and>
   applyGetter (statementGetter (getUpdate exTable ''ks'' [exName, exId] (Some exDocInfo) [] None False))
       exDoc (Some exDocInfo) exMapping
     = Inr [Some (JNum 60), Some (JStr ''x''), Some (JNum 5)]"
  by (simp add: ex_defs vocab_defs update_defs script_defs safe_defs Let_def lookup_def)

subsection \<open>The filtering directive of SELECT\<close>

text \<open>
  C3. The text returned by \<open>getSelect\<close> does not depend on the flag \<open>allowFilter\<close>, and
  whenever a text is returned it ends with \<open> ALLOW FILTERING\<close>; a text is returned whenever
  the values of the bindings are well-formed.
\<close>

theorem select_allow_filtering:
  "getSelect tableName keyspace propertiesInfo fieldsInfo orderByColumns allowFilter limit' =
     getSelect tableName keyspace propertiesInfo fieldsInfo orderByColumns allowFilter' limit' \<and>
   (\<forall>q. getSelect tableName keyspace propertiesInfo fieldsInfo orderByColumns allowFilter limit'
          = Inr q \<longrightarrow> suffix '' ALLOW FILTERING'' q) \<and>
   ((\<forall>p \<in> set propertiesInfo. wellFormed (val p)) \<longrightarrow>
      (\<exists>q. getSelect tableName keyspace propertiesInfo fieldsInfo orderByColumns allowFilter limit'
             = Inr q))"
proof -
  have "getSelect tableName keyspace propertiesInfo fieldsInfo orderByColumns allowFilter limit' =
     getSelect tableName keyspace propertiesInfo fieldsInfo orderByColumns allowFilter' limit'"
    by (simp add: getSelect_def)
  moreover have "\<forall>q. getSelect tableName keyspace propertiesInfo fieldsInfo orderByColumns
      allowFilter limit' = Inr q \<longrightarrow> suffix '' ALLOW FILTERING'' q"
    by (auto simp: getSelect_def Let_def suffix_def split: sum.splits if_splits)
  moreover have "(\<forall>p \<in> set propertiesInfo. wellFormed (val p)) \<longrightarrow>
      (\<exists>q. getSelect tableName keyspace propertiesInfo fieldsInfo orderByColumns allowFilter limit'
             = Inr q)"
    by (intro impI getSelect_returns)
  ultimately show ?thesis by (intro conjI)
qed

theorem select_allow_filtering_witness:
  "getSelect ''t'' ''ks'' [exId] [] [] True JUndefined
     = getSelect ''t'' ''ks'' [exId] [] [] False JUndefined \<and>
   getSelect ''t'' ''ks'' [exId] [] [] True JUndefined
     = Inr ''SELECT * FROM ks.t WHERE id = ? ALLOW FILTERING'' \<and>
   suffix '' ALLOW FILTERING'' ''SELECT * FROM ks.t WHERE id = ? ALLOW FILTERING''"
proof -
  have q: "getSelect ''t'' ''ks'' [exId] [] [] True JUndefined
             = Inr ''SELECT * FROM ks.t WHERE id = ? ALLOW FILTERING''"
    by (simp add: ex_defs select_defs script_defs safe_defs Let_def)
  have "\<forall>p \<in> set [exId]. wellFormed (val p)" by (simp add: ex_defs)
  with select_allow_filtering [of "''t''" "''ks''" "[exId]" "[]" "[]" True JUndefined False] q
  show ?thesis by simp
qed

subsection \<open>Idempotence of INSERT\<close>

text \<open>
  C5. The statement returned by \<open>getInsert\<close> is not idempotent when \<open>ifNotExists\<close> is true
  and idempotent when it is false or omitted, whatever the schema, the bindings and the
  other options are; a statement is returned whenever the values of the surviving bindings
  are well-formed and their property names stand for themselves between quotes.
\<close>

theorem insert_idempotent:
  "(\<forall>r. getInsert table keyspace propertiesInfo docInfo ifNotExists allowFilter = Inr r \<longrightarrow>
        (ifNotExists = Some True \<longrightarrow> \<not> isIdempotent r) \<and>
        (ifNotExists = Some False \<or> ifNotExists = None \<longrightarrow> isIdempotent r)) \<and>
   ((\<forall>p \<in> set (surviving table propertiesInfo). wellFormed (val p)) \<and>
    safeNames (surviving table propertiesInfo) \<longrightarrow>
      (\<exists>r. getInsert table keyspace propertiesInfo docInfo ifNotExists allowFilter = Inr r))"
proof -
  have "\<forall>r. getInsert table keyspace propertiesInfo docInfo ifNotExists allowFilter = Inr r \<longrightarrow>
        (ifNotExists = Some True \<longrightarrow> \<not> isIdempotent r) \<and>
        (ifNotExists = Some False \<or> ifNotExists = None \<longrightarrow> isIdempotent r)"
    by (auto simp: getInsert_def Let_def split: sum.splits)
  moreover have "(\<forall>p \<in> set (surviving table propertiesInfo). wellFormed (val p)) \<and>
      safeNames (surviving table propertiesInfo) \<longrightarrow>
      (\<exists>r. getInsert table keyspace propertiesInfo docInfo ifNotExists allowFilter = Inr r)"
    using getInsert_returns [of table propertiesInfo keyspace docInfo ifNotExists allowFilter]
    by blast
  ultimately show ?thesis by (intro conjI)
qed

theorem insert_idempotent_witness:
  "statementIdempotent (getInsert exTable ''ks'' [exId] None None False) = Inr True \<and>
   statementIdempotent (getInsert exTable ''ks'' [exId] None (Some False) False) = Inr True \<and>
   statementIdempotent (getInsert exTable ''ks'' [exId] None (Some True) False) = Inr False"
proof -
  have wf: "(\<forall>p \<in> set (surviving exTable [exId]). wellFormed (val p)) \<and>
      safeNames (surviving exTable [exId])"
    by (simp add: ex_defs regular_defs safe_defs)
  have "statementIdempotent (getInsert exTable ''ks'' [exId] None ine False)
          = Inr (ine \<noteq> Some True)" for ine
  proof -
    from insert_idempotent [of exTable "''ks''" "[exId]" None ine False] wf
    obtain r where r: "getInsert exTable ''ks'' [exId] None ine False = Inr r" by blast
    with insert_idempotent [of exTable "''ks''" "[exId]" None ine False]
    have "isIdempotent r = (ine \<noteq> Some True)" by (cases ine) auto
    with r show ?thesis by (simp add: statementIdempotent_def)
  qed
  from this [of None] this [of "Some False"] this [of "Some True"] show ?thesis by simp
qed

subsection \<open>Placeholders and extracted values\<close>

text \<open>
  C1, as stated. The number of \<open>?\<close> in the query text is not the length of the extracted list
  for every construction: a DELETE with \<open>ifExists = true\<close> and a condition on \<open>name\<close> renders
  \<open>IF EXISTS\<close> and no condition, while its getter still reads the value of the condition.
\<close>

theorem placeholders_mismatch:
  "queryText (Delete exTable ''ks'' [exId] (Some exWhenInfo) [exName] (Some True))
     = Inr ''DELETE FROM ks.t WHERE id = ? IF EXISTS'' \<and>
   applyGetter (extractionRoutine (Delete exTable ''ks'' [exId] (Some exWhenInfo) [exName] (Some True)))
       exDoc (Some exWhenInfo) exMapping
     = Inr [Some (JNum 5), Some (JStr ''x'')] \<and>
   placeholders ''DELETE FROM ks.t WHERE id = ? IF EXISTS''
     \<noteq> length [Some (JNum 5), Some (JStr ''x'')]"
  by (simp add: ex_defs vocab_defs delete_defs script_defs safe_defs Let_def lookup_def)

text \<open>
  C1, amended. For every regular construction of any of the four kinds (among the
  conditions of \<open>regular\<close>: the property names that the script reads hold no quote, no
  backslash and no line break), whenever the query text and the extraction routine are
  returned and the routine returns a list on a document, the length of that list is the
  number of \<open>?\<close> in the query text. When the construction is
  also well-formed, both are returned, and the routine returns such a list on every document
  and options that carry the bindings, with a registry that converts them.
\<close>

theorem placeholders_match:
  assumes "regular c"
  shows "(\<forall>q g doc docInfo mappingInfo out.
            queryText c = Inr q \<and> extractionRoutine c = Inr g \<and>
            g doc docInfo mappingInfo = Inr out
              \<longrightarrow> placeholders q = length out) \<and>
         (wellFormedConstruction c \<longrightarrow>
            (\<exists>q g. queryText c = Inr q \<and> extractionRoutine c = Inr g \<and>
               (\<forall>doc docInfo mappingInfo.
                  carries c doc docInfo \<and> converts c mappingInfo
                    \<longrightarrow> (\<exists>out. g doc docInfo mappingInfo = Inr out \<and>
                              placeholders q = length out))))"
proof (intro conjI allI impI)
  fix q g doc docInfo mappingInfo out
  assume "queryText c = Inr q \<and> extractionRoutine c = Inr g \<and>
          g doc docInfo mappingInfo = Inr out"
  with assms show "placeholders q = length out" by (blast intro: regular_count)
next
  assume wf: "wellFormedConstruction c"
  have safe: "safeConstruction c" using assms by (cases c) simp_all
  from construction_returns [OF wf safe] obtain q g where
    q: "queryText c = Inr q" and g: "extractionRoutine c = Inr g" by blast
  have "\<exists>out. g doc docInfo mappingInfo = Inr out \<and> placeholders q = length out"
    if "carries c doc docInfo \<and> converts c mappingInfo" for doc docInfo mappingInfo
  proof -
    from extraction_returns [OF wf _ _ g safe] that obtain out where
      out: "g doc docInfo mappingInfo = Inr out" by blast
    from regular_count [OF assms q g out] out show ?thesis by blast
  qed
  with q g show "\<exists>q g. queryText c = Inr q \<and> extractionRoutine c = Inr g \<and>
               (\<forall>doc docInfo mappingInfo.
                  carries c doc docInfo \<and> converts c mappingInfo
                    \<longrightarrow> (\<exists>out. g doc docInfo mappingInfo = Inr out \<and>
                              placeholders q = length out))" by blast
qed

theorem placeholders_match_witness:
  "(regular (Select ''t'' ''ks'' [exBetween] [] [(''id'', ''ASC'')] False (JNum 10)) \<and>
    queryText (Select ''t'' ''ks'' [exBetween] [] [(''id'', ''ASC'')] False (JNum 10))
      = Inr ''SELECT * FROM ks.t WHERE id > ? AND id < ? ORDER BY id ASC LIMIT ? ALLOW FILTERING'' \<and>
    applyGetter (extractionRoutine (Select ''t'' ''ks'' [exBetween] [] [(''id'', ''ASC'')] False (JNum 10)))
        exBetweenDoc (Some exWhenInfo) exMapping
      = Inr [Some (JNum 1), Some (JNum 9), Some (JNum 10)] \<and>
    placeholders ''SELECT * FROM ks.t WHERE id > ? AND id < ? ORDER BY id ASC LIMIT ? ALLOW FILTERING''
      = length [Some (JNum 1), Some (JNum 9), Some (JNum 10)]) \<and>
   (regular (Insert exTable ''ks'' [exId, exName] (Some exDocInfo) None False) \<and>
    queryText (Insert exTable ''ks'' [exId, exName] (Some exDocInfo) None False)
      = Inr ''INSERT INTO ks.t (id, name) VALUES (?, ?) USING TTL ?'' \<and>
    applyGetter (extractionRoutine (Insert exTable ''ks'' [exId, exName] (Some exDocInfo) None False))
        exDoc (Some exDocInfo) exMapping
      = Inr [Some (JNum 5), Some (JStr ''x''), Some (JNum 60)] \<and>
    placeholders ''INSERT INTO ks.t (id, name) VALUES (?, ?) USING TTL ?''
      = length [Some (JNum 5), Some (JStr ''x''), Some (JNum 60)]) \<and>
   (regular (Update exTable ''ks'' [exIncr, exId] (Some exWhenInfo) [exName] None False) \<and>
    queryText (Update exTable ''ks'' [exIncr, exId] (Some exWhenInfo) [exName] None False)
      = Inr ''UPDATE ks.t SET name = name + ? WHERE id = ? IF name = ?'' \<and>
    applyGetter (extractionRoutine (Update exTable ''ks'' [exIncr, exId] (Some exWhenInfo) [exName] None False))
        exIncrDoc (Some exWhenInfo) exMapping
      = Inr [Some (JNum 1), Some (JNum 5), Some (JStr ''x'')] \<and>
    placeholders ''UPDATE ks.t SET name = name + ? WHERE id = ? IF name = ?''
      = length [Some (JNum 1), Some (JNum 5), Some (JStr ''x'')]) \<and>
   (regular (Delete exTable ''ks'' [exId] (Some exWhenInfo) [exName] None) \<and>
    queryText (Delete exTable ''ks'' [exId] (Some exWhenInfo) [exName] None)
      = Inr ''DELETE FROM ks.t WHERE id = ? IF name = ?'' \<and>
    applyGetter (extractionRoutine (Delete exTable ''ks'' [exId] (Some exWhenInfo) [exName] None))
        exDoc (Some exWhenInfo) exMapping
      = Inr [Some (JNum 5), Some (JStr ''x'')] \<and>
    placeholders ''DELETE FROM ks.t WHERE id = ? IF name = ?''
      = length [Some (JNum 5), Some (JStr ''x'')]) \<and>
   (wellFormedConstruction (Delete exTable ''ks'' [exId] (Some exWhenInfo) [exName] None) \<and>
    carries (Delete exTable ''ks'' [exId] (Some exWhenInfo) [exName] None) exDoc (Some exWhenInfo) \<and>
    converts (Delete exTable ''ks'' [exId] (Some exWhenInfo) [exName] None) exMapping \<and>
    (\<exists>q g out. queryText (Delete exTable ''ks'' [exId] (Some exWhenInfo) [exName] None) = Inr q \<and>
       extractionRoutine (Delete exTable ''ks'' [exId] (Some exWhenInfo) [exName] None) = Inr g \<and>
       g exDoc (Some exWhenInfo) exMapping = Inr out \<and> placeholders q = length out))"
proof -
  have match: "placeholders q = length out"
    if "regular c" and "queryText c = Inr q"
      and "applyGetter (extractionRoutine c) doc docInfo exMapping = Inr out"
    for c q doc docInfo out
  proof -
    from that(3) obtain g where "extractionRoutine c = Inr g" "g doc docInfo exMapping = Inr out"
      by (auto simp: applyGetter_def split: sum.splits)
    with that(1,2) placeholders_match [of c] show ?thesis by blast
  qed
  have s1: "regular (Select ''t'' ''ks'' [exBetween] [] [(''id'', ''ASC'')] False (JNum 10))"
    by (simp add: ex_defs regular_defs safe_defs)
  have s2: "queryText (Select ''t'' ''ks'' [exBetween] [] [(''id'', ''ASC'')] False (JNum 10))
      = Inr ''SELECT * FROM ks.t WHERE id > ? AND id < ? ORDER BY id ASC LIMIT ? ALLOW FILTERING''"
    by (simp add: ex_defs select_defs script_defs safe_defs Let_def)
  have s3: "applyGetter (extractionRoutine (Select ''t'' ''ks'' [exBetween] [] [(''id'', ''ASC'')] False (JNum 10)))
        exBetweenDoc (Some exWhenInfo) exMapping
      = Inr [Some (JNum 1), Some (JNum 9), Some (JNum 10)]"
    by (simp add: ex_defs vocab_defs select_defs script_defs safe_defs Let_def lookup_def)
  have i1: "regular (Insert exTable ''ks'' [exId, exName] (Some exDocInfo) None False)"
    by (simp add: ex_defs regular_defs safe_defs)
  have i2: "queryText (Insert exTable ''ks'' [exId, exName] (Some exDocInfo) None False)
      = Inr ''INSERT INTO ks.t (id, name) VALUES (?, ?) USING TTL ?''"
    by (simp add: ex_defs vocab_defs insert_defs script_defs safe_defs Let_def)
  have i3: "applyGetter (extractionRoutine (Insert exTable ''ks'' [exId, exName] (Some exDocInfo) None False))
        exDoc (Some exDocInfo) exMapping
      = Inr [Some (JNum 5), Some (JStr ''x''), Some (JNum 60)]"
    by (simp add: ex_defs vocab_defs insert_defs script_defs safe_defs Let_def lookup_def)
  have u1: "regular (Update exTable ''ks'' [exIncr, exId] (Some exWhenInfo) [exName] None False)"
    by (simp add: ex_defs regular_defs safe_defs)
  have u2: "queryText (Update exTable ''ks'' [exIncr, exId] (Some exWhenInfo) [exName] None False)
      = Inr ''UPDATE ks.t SET name = name + ? WHERE id = ? IF name = ?''"
    by (simp add: ex_defs vocab_defs update_defs script_defs safe_defs Let_def)
  have u3: "applyGetter (extractionRoutine (Update exTable ''ks'' [exIncr, exId] (Some exWhenInfo) [exName] None False))
        exIncrDoc (Some exWhenInfo) exMapping
      = Inr [Some (JNum 1), Some (JNum 5), Some (JStr ''x'')]"
    by (simp add: ex_defs vocab_defs update_defs script_defs safe_defs Let_def lookup_def)
  have d1: "regular (Delete exTable ''ks'' [exId] (Some exWhenInfo) [exName] None)"
    by (simp add: ex_defs regular_defs safe_defs)
  have d2: "queryText (Delete exTable ''ks'' [exId] (Some exWhenInfo) [exName] None)
      = Inr ''DELETE FROM ks.t WHERE id = ? IF name = ?''"
    by (simp add: ex_defs vocab_defs delete_defs script_defs safe_defs Let_def)
  have d3: "applyGetter (extractionRoutine (Delete exTable ''ks'' [exId] (Some exWhenInfo) [exName] None))
        exDoc (Some exWhenInfo) exMapping
      = Inr [Some (JNum 5), Some (JStr ''x'')]"
    by (simp add: ex_defs vocab_defs delete_defs script_defs safe_defs Let_def lookup_def)
  have t1: "wellFormedConstruction (Delete exTable ''ks'' [exId] (Some exWhenInfo) [exName] None)"
    by (simp add: ex_defs regular_defs safe_defs)
  have t2: "carries (Delete exTable ''ks'' [exId] (Some exWhenInfo) [exName] None) exDoc
              (Some exWhenInfo)"
    by (simp add: ex_defs regular_defs carriesWhen_def lookup_def)
  have t3: "converts (Delete exTable ''ks'' [exId] (Some exWhenInfo) [exName] None) exMapping"
    by (simp add: ex_defs regular_defs convertsBinding_def)
  from placeholders_match [OF d1] t1 t2 t3
  have t4: "\<exists>q g out. queryText (Delete exTable ''ks'' [exId] (Some exWhenInfo) [exName] None) = Inr q \<and>
       extractionRoutine (Delete exTable ''ks'' [exId] (Some exWhenInfo) [exName] None) = Inr g \<and>
       g exDoc (Some exWhenInfo) exMapping = Inr out \<and> placeholders q = length out"
    by blast
  show ?thesis
    using s1 s2 s3 match [OF s1 s2 s3] i1 i2 i3 match [OF i1 i2 i3]
      u1 u2 u3 match [OF u1 u2 u3] d1 d2 d3 match [OF d1 d2 d3] t1 t2 t3 t4
    by (intro conjI)
qed

subsection \<open>Idempotence and counters of UPDATE\<close>

text \<open>
  C4, amended. A returned UPDATE statement is not idempotent when there are conditions or
  \<open>ifExists\<close> is true; it is not idempotent and is a counter statement when some surviving
  binding, mutated or identifying, is on a counter column; it is not idempotent when some
  surviving binding, mutated or identifying, is an assignment on a list column; when none of
  these holds it is idempotent and not a counter statement. A statement is returned whenever
  the values of the surviving bindings and of the conditions are well-formed, their property
  names stand for themselves between quotes, and no binding is on a name that the table only
  inherits.
\<close>

theorem update_flags:
  "(\<forall>r. getUpdate t ks ps di w ie af = Inr r \<longrightarrow>
        (w \<noteq> [] \<or> ie = Some True \<longrightarrow> \<not> isIdempotent r) \<and>
        ((\<exists>p \<in> set ps. targetsCounter t p) \<longrightarrow> \<not> isIdempotent r \<and> isCounter r) \<and>
        ((\<exists>p \<in> set ps. assignsToList t p) \<longrightarrow> \<not> isIdempotent r) \<and>
        (w = [] \<and> ie \<noteq> Some True \<and> (\<forall>p \<in> set ps. \<not> targetsCounter t p \<and> \<not> assignsToList t p)
           \<longrightarrow> isIdempotent r \<and> \<not> isCounter r)) \<and>
   ((\<forall>p \<in> set (surviving t ps). wellFormed (val p)) \<and> (\<forall>p \<in> set w. wellFormed (val p)) \<and>
    safeNames (surviving t ps) \<and> safeNames w \<and>
    (\<forall>p \<in> set ps. columnByName t (columnName p) \<noteq> InheritedEntry) \<longrightarrow>
      (\<exists>r. getUpdate t ks ps di w ie af = Inr r))"
proof -
  have "\<forall>r. getUpdate t ks ps di w ie af = Inr r \<longrightarrow>
        (w \<noteq> [] \<or> ie = Some True \<longrightarrow> \<not> isIdempotent r) \<and>
        ((\<exists>p \<in> set ps. targetsCounter t p) \<longrightarrow> \<not> isIdempotent r \<and> isCounter r) \<and>
        ((\<exists>p \<in> set ps. assignsToList t p) \<longrightarrow> \<not> isIdempotent r) \<and>
        (w = [] \<and> ie \<noteq> Some True \<and> (\<forall>p \<in> set ps. \<not> targetsCounter t p \<and> \<not> assignsToList t p)
           \<longrightarrow> isIdempotent r \<and> \<not> isCounter r)"
    by (intro allI impI update_flags_returned)
  moreover have "(\<forall>p \<in> set (surviving t ps). wellFormed (val p)) \<and>
      (\<forall>p \<in> set w. wellFormed (val p)) \<and> safeNames (surviving t ps) \<and> safeNames w \<and>
      (\<forall>p \<in> set ps. columnByName t (columnName p) \<noteq> InheritedEntry) \<longrightarrow>
      (\<exists>r. getUpdate t ks ps di w ie af = Inr r)"
    using getUpdate_returns [of t ps w ks di ie af] by blast
  ultimately show ?thesis by (intro conjI)
qed

text \<open>
  C4, as stated. The classification looks at every surviving binding, not only at the mutated
  ones: with no conditions, \<open>ifExists\<close> omitted and one mutated binding, on the plain column
  \<open>name\<close>, the statement is still not idempotent, because the identifying binding is an
  assignment on the list column \<open>path\<close>.
\<close>

theorem update_flags_mutated_only_fails:
  "statementIdempotent (getUpdate exListKeyTable ''ks'' [exName, exPath] None [] None False) = Inr False \<and>
   mutated exListKeyTable [exName, exPath] = [exName] \<and>
   \<not> targetsCounter exListKeyTable exName \<and> \<not> assignsToList exListKeyTable exName"
  by (simp add: ex_defs statementIdempotent_def update_defs script_defs safe_defs
        regular_defs targetsCounter_def assignsToList_def Let_def)

theorem update_flags_witness:
  "statementIdempotent (getUpdate exTable ''ks'' [exName, exId] None [] None False) = Inr True \<and>
   statementIdempotent (getUpdate exListKeyTable ''ks'' [exName, exPath] None [] None False) = Inr False"
proof -
  have "\<exists>r. getUpdate exTable ''ks'' [exName, exId] None [] None False = Inr r"
    by (simp add: ex_defs update_defs script_defs safe_defs Let_def)
  then obtain r where r: "getUpdate exTable ''ks'' [exName, exId] None [] None False = Inr r" ..
  have a: "\<forall>p \<in> set [exName, exId]. \<not> targetsCounter exTable p \<and> \<not> assignsToList exTable p"
    by (simp add: ex_defs targetsCounter_def assignsToList_def columnByName_def)
  have "\<exists>r. getUpdate exListKeyTable ''ks'' [exName, exPath] None [] None False = Inr r"
    by (simp add: ex_defs update_defs script_defs safe_defs Let_def)
  then obtain r' where r': "getUpdate exListKeyTable ''ks'' [exName, exPath] None [] None False = Inr r'" ..
  have b: "\<exists>p \<in> set [exName, exPath]. assignsToList exListKeyTable p"
    by (simp add: ex_defs assignsToList_def columnByName_def)
  from update_flags [of exTable "''ks''" "[exName, exId]" None "[]" None False] r a
  have "isIdempotent r" by blast
  moreover
  from update_flags [of exListKeyTable "''ks''" "[exName, exPath]" None "[]" None False] r' b
  have "\<not> isIdempotent r'" by blast
  ultimately show ?thesis using r r' by (simp add: statementIdempotent_def)
qed

subsection \<open>DELETE restricted to columns\<close>

text \<open>
  C7. For a DELETE with the column-restricted option set, on a table that has no column
  with the empty name: if some surviving binding is not on a primary key column, the query
  text is the whole-row text with the names of the columns of these bindings, in order and
  joined by \<open>", "\<close>, between \<open>DELETE\<close> and \<open>FROM\<close>; if none is, the query text is the
  whole-row text, the one produced without the option. (The source tests the joined text,
  not the list, which is the same on such a table.) A statement is returned whenever the
  values of the surviving bindings and of the conditions are well-formed and the property
  names of the identifying bindings and of the conditions stand for themselves between
  quotes.
\<close>

theorem delete_only_columns:
  assumes only: "truthy (docInfoDeleteOnlyColumns di)"
    and without: "\<not> truthy (docInfoDeleteOnlyColumns di0)"
    and named: "columnsByName t [] = None"
  shows "(\<forall>r. getDelete t ks ps di w ie = Inr r \<longrightarrow>
            (\<exists>r0 rest. getDelete t ks ps di0 w ie = Inr r0 \<and> query r0 = ''DELETE FROM '' @ rest \<and>
               (if mutated t ps \<noteq> []
                then query r = ''DELETE '' @ join '', '' (map columnName (mutated t ps))
                                 @ '' FROM '' @ rest
                else query r = query r0))) \<and>
         ((\<forall>p \<in> set (surviving t ps). wellFormed (val p)) \<and> (\<forall>p \<in> set w. wellFormed (val p)) \<and>
          safeNames (identifying t ps) \<and> safeNames w \<longrightarrow>
            (\<exists>r. getDelete t ks ps di w ie = Inr r))"
proof -
  have names: "\<forall>p \<in> set (mutated t ps). columnName p \<noteq> []"
    using named
    by (auto simp: mutated_def surviving_def columnByName_def objectPrototypeNames_def)
  have cols: "(join '', '' (map columnName (mutated t ps)) \<noteq> []) = (mutated t ps \<noteq> [])"
    using join_nonempty [of "map columnName (mutated t ps)" "'', ''"] names by auto
  have "\<forall>r. getDelete t ks ps di w ie = Inr r \<longrightarrow>
            (\<exists>r0 rest. getDelete t ks ps di0 w ie = Inr r0 \<and> query r0 = ''DELETE FROM '' @ rest \<and>
               (if mutated t ps \<noteq> []
                then query r = ''DELETE '' @ join '', '' (map columnName (mutated t ps))
                                 @ '' FROM '' @ rest
                else query r = query r0))"
  proof (intro allI impI)
    fix r assume "getDelete t ks ps di w ie = Inr r"
    from delete_only_columns_returned [OF this only without]
    show "\<exists>r0 rest. getDelete t ks ps di0 w ie = Inr r0 \<and> query r0 = ''DELETE FROM '' @ rest \<and>
               (if mutated t ps \<noteq> []
                then query r = ''DELETE '' @ join '', '' (map columnName (mutated t ps))
                                 @ '' FROM '' @ rest
                else query r = query r0)"
      unfolding cols by blast
  qed
  moreover have "(\<forall>p \<in> set (surviving t ps). wellFormed (val p)) \<and>
      (\<forall>p \<in> set w. wellFormed (val p)) \<and> safeNames (identifying t ps) \<and> safeNames w \<longrightarrow>
      (\<exists>r. getDelete t ks ps di w ie = Inr r)"
    using getDelete_returns [of t ps w ks di ie] by blast
  ultimately show ?thesis by (intro conjI)
qed

theorem delete_only_columns_witness:
  "statementQuery (getDelete exTable ''ks'' [exName, exId] (Some exOnlyColumns) [] None)
     = Inr ''DELETE name FROM ks.t WHERE id = ?'' \<and>
   statementQuery (getDelete exTable ''ks'' [exName, exId] None [] None)
     = Inr ''DELETE FROM ks.t WHERE id = ?'' \<and>
   statementQuery (getDelete exTable ''ks'' [exId] (Some exOnlyColumns) [] None)
     = statementQuery (getDelete exTable ''ks'' [exId] None [] None)"
proof -
  have wf: "(\<forall>p \<in> set (surviving exTable ps). wellFormed (val p)) \<and>
      (\<forall>p \<in> set []. wellFormed (val p)) \<and> safeNames (identifying exTable ps) \<and> safeNames []"
    if "set ps \<subseteq> {exName, exId}" for ps
    using that by (auto simp: ex_defs regular_defs safe_defs)
  have t: "truthy (docInfoDeleteOnlyColumns (Some exOnlyColumns))"
    by (simp add: ex_defs docInfoDeleteOnlyColumns_def)
  have f: "\<not> truthy (docInfoDeleteOnlyColumns None)"
    by (simp add: docInfoDeleteOnlyColumns_def)
  have n: "columnsByName exTable [] = None"
    by (simp add: ex_defs)
  note c = delete_only_columns [OF t f n, of "''ks''" _ "[]" None]
  from c [of "[exName, exId]"] wf [of "[exName, exId]"]
  obtain r where r: "getDelete exTable ''ks'' [exName, exId] (Some exOnlyColumns) [] None = Inr r"
    by auto
  have m: "mutated exTable [exName, exId] = [exName]"
    by (simp add: ex_defs regular_defs)
  have q0: "statementQuery (getDelete exTable ''ks'' [exName, exId] None [] None)
     = Inr ''DELETE FROM ks.t WHERE id = ?''"
    by (simp add: ex_defs vocab_defs delete_defs script_defs safe_defs Let_def)
  from c [of "[exName, exId]"] r
  obtain r0 rest where "getDelete exTable ''ks'' [exName, exId] None [] None = Inr r0"
    "query r0 = ''DELETE FROM '' @ rest"
    "if mutated exTable [exName, exId] \<noteq> []
     then query r = ''DELETE '' @ join '', '' (map columnName (mutated exTable [exName, exId]))
                      @ '' FROM '' @ rest
     else query r = query r0" by blast
  with m q0 have "query r = ''DELETE name FROM ks.t WHERE id = ?''"
    by (auto simp: statementQuery_def ex_defs)
  moreover
  from c [of "[exId]"] wf [of "[exId]"]
  obtain r' where r': "getDelete exTable ''ks'' [exId] (Some exOnlyColumns) [] None = Inr r'"
    by auto
  have m': "mutated exTable [exId] = []"
    by (simp add: ex_defs regular_defs)
  from c [of "[exId]"] r'
  obtain r0' rest' where "getDelete exTable ''ks'' [exId] None [] None = Inr r0'"
    "if mutated exTable [exId] \<noteq> []
     then query r' = ''DELETE '' @ join '', '' (map columnName (mutated exTable [exId]))
                      @ '' FROM '' @ rest'
     else query r' = query r0'" by blast
  with m'
  have "statementQuery (getDelete exTable ''ks'' [exId] (Some exOnlyColumns) [] None)
     = statementQuery (getDelete exTable ''ks'' [exId] None [] None)"
    using r' by (auto simp: statementQuery_def)
  ultimately show ?thesis using r q0 by (simp add: statementQuery_def)
qed

subsection \<open>Composite comparisons\<close>

text \<open>
  C8. For a composite comparison with connector \<open>key\<close> and children \<open>l\<close> and \<open>r\<close>, themselves
  of any depth, read at a path \<open>e\<close> of any depth (the property name standing for itself
  between quotes): the condition is the condition of \<open>l\<close>, the connector between spaces, and
  the condition of \<open>r\<close>; the getter is the getter of \<open>l\<close> on \<open>.value[0]\<close>, a comma, and the
  getter of \<open>r\<close> on \<open>.value[1]\<close>; the script of this getter returns the parameters of \<open>l\<close>
  followed by those of \<open>r\<close>; and when the binding needs conversion, with the function \<open>g\<close>
  registered under the property name, the parameters of each child are its parameters
  without conversion, each converted by \<open>g\<close> (the array of a membership test element by
  element), the first error being the error.
\<close>

theorem composite_comparison:
  assumes a: "getSingleCondition c l = Inr a" and b: "getSingleCondition c r = Inr b"
    and gl: "valueGetterSingle (Index (Value e) I0) pn l fm = Inr gl"
    and gr: "valueGetterSingle (Index (Value e) I1) pn r fm = Inr gr"
    and e: "pathExpr e" and pn: "safeName pn" and fname: "fname \<in> set functionNames"
  shows "getSingleCondition c (JOp key (JArr [l, r]) True isIn) = Inr (a @ '' '' @ key @ '' '' @ b) \<and>
         valueGetterSingle e pn (JOp key (JArr [l, r]) True isIn) fm = Inr (gl @ [Comma] @ gr) \<and>
         runScript fname (gl @ [Comma] @ gr) doc docInfo mappingInfo =
           (case runScript fname gl doc docInfo mappingInfo of Inl err \<Rightarrow> Inl err
            | Inr x \<Rightarrow> (case runScript fname gr doc docInfo mappingInfo of Inl err \<Rightarrow> Inl err
                         | Inr y \<Rightarrow> Inr (x @ y))) \<and>
         (\<forall>g tl tr rawl rawr.
            fm \<noteq> None \<and> mappingInfo pn = Some g \<and>
            valueGetterSingle (Index (Value e) I0) pn l None = Inr tl \<and>
            valueGetterSingle (Index (Value e) I1) pn r None = Inr tr \<and>
            runScript fname tl doc docInfo mappingInfo = Inr rawl \<and>
            runScript fname tr doc docInfo mappingInfo = Inr rawr \<longrightarrow>
              runScript fname gl doc docInfo mappingInfo
                = mapE (convertParam g) (zip (membership l) rawl) \<and>
              runScript fname gr doc docInfo mappingInfo
                = mapE (convertParam g) (zip (membership r) rawr))"
proof -
  have g: "valueGetterSingle e pn (JOp key (JArr [l, r]) True isIn) fm = Inr (gl @ [Comma] @ gr)"
    using gl gr by simp
  have el: "pathExpr (Index (Value e) I0)" and er: "pathExpr (Index (Value e) I1)"
    using e by simp_all
  have script: "runScript fname ts doc docInfo mappingInfo = runGetter ts doc docInfo mappingInfo"
    if "valueGetterSingle x pn v m = Inr ts" "pathExpr x" for ts x v m
    by (rule runScript_tokens [OF valueGetterSingle_script [OF that pn] fname])
  have "separated gl" "separated gr"
    using gl gr by (auto dest: valueGetterSingle_separated)
  from runGetter_append [OF this]
  have run: "runScript fname (gl @ [Comma] @ gr) doc docInfo mappingInfo =
           (case runScript fname gl doc docInfo mappingInfo of Inl err \<Rightarrow> Inl err
            | Inr x \<Rightarrow> (case runScript fname gr doc docInfo mappingInfo of Inl err \<Rightarrow> Inl err
                         | Inr y \<Rightarrow> Inr (x @ y)))"
    unfolding script [OF g e] script [OF gl el] script [OF gr er] .
  have conv: "runScript fname gl doc docInfo mappingInfo
                = mapE (convertParam g) (zip (membership l) rawl) \<and>
              runScript fname gr doc docInfo mappingInfo
                = mapE (convertParam g) (zip (membership r) rawr)"
    if f: "fm \<noteq> None" and reg: "mappingInfo pn = Some g"
      and tl: "valueGetterSingle (Index (Value e) I0) pn l None = Inr tl"
      and tr: "valueGetterSingle (Index (Value e) I1) pn r None = Inr tr"
      and rl: "runScript fname tl doc docInfo mappingInfo = Inr rawl"
      and rr: "runScript fname tr doc docInfo mappingInfo = Inr rawr"
    for g tl tr rawl rawr
  proof -
    from f obtain f' where fm: "fm = Some f'" by auto
    from rl have rl': "runGetter tl doc docInfo mappingInfo = Inr rawl"
      unfolding script [OF tl el] .
    from rr have rr': "runGetter tr doc docInfo mappingInfo = Inr rawr"
      unfolding script [OF tr er] .
    from conversion_runs [OF tl gl [unfolded fm] reg rl']
      conversion_runs [OF tr gr [unfolded fm] reg rr']
    show ?thesis unfolding script [OF gl el] script [OF gr er] by simp
  qed
  show ?thesis using a b g run conv by simp
qed

theorem composite_comparison_witness:
  "getSingleCondition ''tags'' (JOp ''AND'' (JArr [exAbove, exAmong]) True False)
     = Inr ''tags > ? AND tags IN ?'' \<and>
   valueGetterSingle (Member DocObj ''tags'') ''tags'' (JOp ''AND'' (JArr [exAbove, exAmong]) True False)
       (Some exConv)
     = Inr [Elem (MappingFunctionCall ''tags'' (Value (Index (Value (Member DocObj ''tags'')) I0))),
            Comma,
            Elem (MapEach (Value (Index (Value (Member DocObj ''tags'')) I1)) ''tags'')] \<and>
   runScript ''getParametersSelect''
       [Elem (Value (Index (Value (Member DocObj ''tags'')) I0))] exRangeDoc None exRegistry
     = Inr [Some (JStr ''a'')] \<and>
   runScript ''getParametersSelect''
       [Elem (Value (Index (Value (Member DocObj ''tags'')) I1))] exRangeDoc None exRegistry
     = Inr [Some (JArr [JStr ''b'', JStr ''c''])] \<and>
   runScript ''getParametersSelect''
       [Elem (MappingFunctionCall ''tags'' (Value (Index (Value (Member DocObj ''tags'')) I0))),
        Comma,
        Elem (MapEach (Value (Index (Value (Member DocObj ''tags'')) I1)) ''tags'')]
       exRangeDoc None exRegistry
     = Inr [Some (JStr ''a!''), Some (JArr [JStr ''b!'', JStr ''c!''])]"
proof -
  have a: "getSingleCondition ''tags'' exAbove = Inr ''tags > ?''"
    by (simp add: exAbove_def)
  have b: "getSingleCondition ''tags'' exAmong = Inr ''tags IN ?''"
    by (simp add: exAmong_def)
  have gl: "valueGetterSingle (Index (Value (Member DocObj ''tags'')) I0) ''tags'' exAbove (Some exConv)
              = Inr [Elem (MappingFunctionCall ''tags'' (Value (Index (Value (Member DocObj ''tags'')) I0)))]"
    by (simp add: exAbove_def getMappingFunctionCall_def)
  have gr: "valueGetterSingle (Index (Value (Member DocObj ''tags'')) I1) ''tags'' exAmong (Some exConv)
              = Inr [Elem (MapEach (Value (Index (Value (Member DocObj ''tags'')) I1)) ''tags'')]"
    by (simp add: exAmong_def)
  have tl: "valueGetterSingle (Index (Value (Member DocObj ''tags'')) I0) ''tags'' exAbove None
              = Inr [Elem (Value (Index (Value (Member DocObj ''tags'')) I0))]"
    by (simp add: exAbove_def)
  have tr: "valueGetterSingle (Index (Value (Member DocObj ''tags'')) I1) ''tags'' exAmong None
              = Inr [Elem (Value (Index (Value (Member DocObj ''tags'')) I1))]"
    by (simp add: exAmong_def)
  have e: "pathExpr (Member DocObj ''tags'')" and pn: "safeName ''tags''"
    by (simp_all add: safeName_def)
  have fname: "''getParametersSelect'' \<in> set functionNames" by simp
  have raw: "runScript ''getParametersSelect'' [Elem x] exRangeDoc None exRegistry
               = runGetter [Elem x] exRangeDoc None exRegistry" if "pathExpr x" for x
    using that by (intro runScript_tokens) (simp_all add: pathExpr_scriptExpr)
  have rl: "runScript ''getParametersSelect''
       [Elem (Value (Index (Value (Member DocObj ''tags'')) I0))] exRangeDoc None exRegistry
     = Inr [Some (JStr ''a'')]"
    by (subst raw) (simp_all add: safeName_def runGetter_single ex_defs lookup_def)
  have rr: "runScript ''getParametersSelect''
       [Elem (Value (Index (Value (Member DocObj ''tags'')) I1))] exRangeDoc None exRegistry
     = Inr [Some (JArr [JStr ''b'', JStr ''c''])]"
    by (subst raw) (simp_all add: safeName_def runGetter_single ex_defs lookup_def)
  have reg: "exRegistry ''tags'' = Some exConv" by (simp add: exRegistry_def)
  have ml: "membership exAbove = [False]" and mr: "membership exAmong = [True]"
    by (simp_all add: exAbove_def exAmong_def)
  note c = composite_comparison [OF a b gl gr e pn fname, of "''AND''" False exRangeDoc None exRegistry]
  from c reg tl tr rl rr
  have "runScript ''getParametersSelect''
          [Elem (MappingFunctionCall ''tags'' (Value (Index (Value (Member DocObj ''tags'')) I0)))]
          exRangeDoc None exRegistry
          = mapE (convertParam exConv) (zip (membership exAbove) [Some (JStr ''a'')])"
    and "runScript ''getParametersSelect''
          [Elem (MapEach (Value (Index (Value (Member DocObj ''tags'')) I1)) ''tags'')]
          exRangeDoc None exRegistry
          = mapE (convertParam exConv) (zip (membership exAmong) [Some (JArr [JStr ''b'', JStr ''c''])])"
    by blast+
  then have "runScript ''getParametersSelect''
          [Elem (MappingFunctionCall ''tags'' (Value (Index (Value (Member DocObj ''tags'')) I0)))]
          exRangeDoc None exRegistry = Inr [Some (JStr ''a!'')]"
    and "runScript ''getParametersSelect''
          [Elem (MapEach (Value (Index (Value (Member DocObj ''tags'')) I1)) ''tags'')]
          exRangeDoc None exRegistry = Inr [Some (JArr [JStr ''b!'', JStr ''c!''])]"
    by (simp_all add: ml mr exConv_def exSuffix_def)
  with c rl rr show ?thesis by simp
qed

subsection \<open>Membership tests under conversion\<close>

text \<open>
  C9. Take a list of bindings, read from the document or from the object of conditions, whose
  property names stand for themselves between quotes, and in it, at position \<open>i\<close>, a binding
  that needs conversion and whose value is a membership test (an operator flagged \<open>IN\<close>,
  without child values). Where its property holds an operator carrying the sequence \<open>xs\<close>,
  with the conversion function \<open>g\<close> registered under the property name and returning \<open>h x\<close>
  on each element \<open>x\<close>: the getter of the binding has exactly one element, whose script
  returns one parameter, the array of the \<open>h x\<close>, in order; and whenever the script of the
  whole list returns, what it returns is the parameters of the bindings, in order, those of
  the binding at \<open>i\<close> being this one array.
\<close>

theorem membership_conversion:
  assumes i: "i < length ps"
    and f: "fromModel (ps ! i) = Some f" and v: "val (ps ! i) = JOp key v False True"
    and safe: "safeNames ps" and fname: "fname \<in> set functionNames"
    and x: "eval doc docInfo mappingInfo
           (Member (case objectName of None \<Rightarrow> DocObj | Some n \<Rightarrow> n) (propertyName (ps ! i))) = Inr x"
    and xs: "js_value x = Inr (JArr xs)"
    and g: "mappingInfo (propertyName (ps ! i)) = Some g"
    and h: "\<forall>x \<in> set xs. g x = Inr (h x)"
  shows "\<exists>e. valueGetterExpression [ps ! i] objectName = Inr [Elem e] \<and>
             runScript fname [Elem e] doc docInfo mappingInfo = Inr [Some (JArr (map h xs))] \<and>
             length (map h xs) = length xs \<and>
             (\<forall>j < length xs. g (xs ! j) = Inr (map h xs ! j)) \<and>
             (\<forall>ts out. valueGetterExpression ps objectName = Inr ts \<and>
                       runScript fname ts doc docInfo mappingInfo = Inr out \<longrightarrow>
                (\<exists>vals. length vals = length ps \<and> out = concat vals \<and>
                         vals ! i = [Some (JArr (map h xs))]))"
proof -
  define on where "on = (case objectName of None \<Rightarrow> DocObj | Some n \<Rightarrow> n)"
  define p where "p = ps ! i"
  define e where "e = MapEach (Value (Member on (propertyName p))) (propertyName p)"
  have mem: "p \<in> set ps" using i by (simp add: p_def)
  have pn: "safeName (propertyName p)" using safe mem by (simp add: safeNames_def)
  have single: "valueGetterSingle (Member on (propertyName p)) (propertyName p) (val p) (fromModel p)
                  = Inr [Elem e]"
    using f v by (simp add: e_def p_def)
  have ve: "valueGetterExpression [p] objectName = Inr [Elem e]"
    using single by (simp add: valueGetterExpression_def on_def)
  have "scriptToks [Elem e]" using pn by (simp add: e_def)
  from runScript_tokens [OF this fname]
  have s: "runScript fname [Elem e] doc docInfo mappingInfo = runGetter [Elem e] doc docInfo mappingInfo" .
  have "mapE (callFromModel mappingInfo (propertyName p)) xs = Inr (map h xs)"
    using g h by (intro mapE_total) (simp add: callFromModel_def p_def)
  then have run: "runGetter [Elem e] doc docInfo mappingInfo = Inr [Some (JArr (map h xs))]"
    using x xs by (simp add: runGetter_single e_def on_def p_def)
  have bp: "bindingParams on p doc docInfo mappingInfo = Inr [Some (JArr (map h xs))]"
    using single run by (simp add: bindingParams_def)
  have whole: "\<exists>vals. length vals = length ps \<and> out = concat vals \<and>
                         vals ! i = [Some (JArr (map h xs))]"
    if ts: "valueGetterExpression ps objectName = Inr ts"
      and out: "runScript fname ts doc docInfo mappingInfo = Inr out" for ts out
  proof -
    from runScript_tokens [OF valueGetterExpression_script [OF ts safe] fname] out
    have "runGetter ts doc docInfo mappingInfo = Inr out" by simp
    then have "concatE (\<lambda>p. bindingParams on p doc docInfo mappingInfo) ps = Inr out"
      unfolding runGetter_valueGetterExpression [OF ts] on_def .
    then obtain vals where vals: "mapE (\<lambda>p. bindingParams on p doc docInfo mappingInfo) ps = Inr vals"
      and o: "out = concat vals"
      by (auto simp: concatE_def split: sum.splits)
    from mapE_nth [OF vals i] bp have "vals ! i = [Some (JArr (map h xs))]"
      by (simp add: p_def)
    with mapE_length [OF vals] o show ?thesis by blast
  qed
  from ve s run h whole show ?thesis unfolding p_def by (intro exI [of _ e]) auto
qed

theorem membership_conversion_witness:
  "valueGetterExpression [exTags] None
     = Inr [Elem (MapEach (Value (Member DocObj ''tags'')) ''tags'')] \<and>
   runScript ''getParametersInsert'' [Elem (MapEach (Value (Member DocObj ''tags'')) ''tags'')]
       ((''id'', JNum 5) # exTagsDoc) None exRegistry
     = Inr [Some (JArr [JStr ''a!'', JStr ''b!''])] \<and>
   valueGetterExpression [exId, exTags] None
     = Inr [Elem (Member DocObj ''id''), Comma,
            Elem (MapEach (Value (Member DocObj ''tags'')) ''tags'')] \<and>
   runScript ''getParametersInsert''
       [Elem (Member DocObj ''id''), Comma,
        Elem (MapEach (Value (Member DocObj ''tags'')) ''tags'')]
       ((''id'', JNum 5) # exTagsDoc) None exRegistry
     = Inr [Some (JNum 5), Some (JArr [JStr ''a!'', JStr ''b!''])] \<and>
   (\<exists>vals. length vals = 2 \<and> [Some (JNum 5), Some (JArr [JStr ''a!'', JStr ''b!''])] = concat vals \<and>
           vals ! 1 = [Some (JArr [JStr ''a!'', JStr ''b!''])])"
proof -
  have 0: "1 < length [exId, exTags]" by simp
  have 1: "fromModel ([exId, exTags] ! 1) = Some exConv" by (simp add: exTags_def)
  have 2: "val ([exId, exTags] ! 1) = JOp ''IN'' (JArr [JStr ''a'', JStr ''b'']) False True"
    by (simp add: exTags_def)
  have 3: "safeNames [exId, exTags]" by (simp add: exId_def exTags_def safe_defs)
  have 4: "''getParametersInsert'' \<in> set functionNames" by simp
  have 5: "eval ((''id'', JNum 5) # exTagsDoc) None exRegistry
             (Member (case None of None \<Rightarrow> DocObj | Some n \<Rightarrow> n) (propertyName ([exId, exTags] ! 1)))
             = Inr (JOp ''IN'' (JArr [JStr ''a'', JStr ''b'']) False True)"
    by (simp add: exTags_def exTagsDoc_def lookup_def)
  have 6: "js_value (JOp ''IN'' (JArr [JStr ''a'', JStr ''b'']) False True)
             = Inr (JArr [JStr ''a'', JStr ''b''])"
    by simp
  have 7: "exRegistry (propertyName ([exId, exTags] ! 1)) = Some exConv"
    by (simp add: exTags_def exRegistry_def)
  have 8: "\<forall>x \<in> set [JStr ''a'', JStr ''b'']. exConv x = Inr (exSuffix x)"
    by (simp add: exConv_def)
  have e: "valueGetterExpression [exTags] None
     = Inr [Elem (MapEach (Value (Member DocObj ''tags'')) ''tags'')]"
    by (simp add: exTags_def script_defs)
  have ts: "valueGetterExpression [exId, exTags] None
     = Inr [Elem (Member DocObj ''id''), Comma,
            Elem (MapEach (Value (Member DocObj ''tags'')) ''tags'')]"
    by (simp add: exId_def exTags_def script_defs)
  have "scriptToks [Elem (Member DocObj ''id''), Comma,
            Elem (MapEach (Value (Member DocObj ''tags'')) ''tags'')]"
    by (simp add: safeName_def)
  from runScript_tokens [OF this 4]
  have out: "runScript ''getParametersInsert''
       [Elem (Member DocObj ''id''), Comma,
        Elem (MapEach (Value (Member DocObj ''tags'')) ''tags'')]
       ((''id'', JNum 5) # exTagsDoc) None exRegistry
     = Inr [Some (JNum 5), Some (JArr [JStr ''a!'', JStr ''b!''])]"
    by (simp add: vocab_defs script_defs exTagsDoc_def exRegistry_def exConv_def exSuffix_def
          lookup_def callFromModel_def)
  have sfx: "map exSuffix [JStr ''a'', JStr ''b''] = [JStr ''a!'', JStr ''b!'']"
    by (simp add: exSuffix_def)
  have nth: "[exId, exTags] ! 1 = exTags" by simp
  have l2: "length [exId, exTags] = 2" by simp
  from membership_conversion [of 1 "[exId, exTags]" exConv "''IN''" "JArr [JStr ''a'', JStr ''b'']"
      "''getParametersInsert''" "(''id'', JNum 5) # exTagsDoc" None exRegistry None
      "JOp ''IN'' (JArr [JStr ''a'', JStr ''b'']) False True" "[JStr ''a'', JStr ''b'']"
      exConv exSuffix, OF 0 1 2 3 4 5 6 7 8]
  obtain e' where m1: "valueGetterExpression [exTags] None = Inr [Elem e']"
    and m2: "runScript ''getParametersInsert'' [Elem e'] ((''id'', JNum 5) # exTagsDoc) None exRegistry
               = Inr [Some (JArr [JStr ''a!'', JStr ''b!''])]"
    and m3: "\<And>ts out. valueGetterExpression [exId, exTags] None = Inr ts \<Longrightarrow>
               runScript ''getParametersInsert'' ts ((''id'', JNum 5) # exTagsDoc) None exRegistry
                 = Inr out \<Longrightarrow>
               \<exists>vals. length vals = 2 \<and> out = concat vals \<and>
                      vals ! 1 = [Some (JArr [JStr ''a!'', JStr ''b!''])]"
    unfolding sfx nth l2 by blast
  from m1 e have "e' = MapEach (Value (Member DocObj ''tags'')) ''tags''" by simp
  with m2 have r: "runScript ''getParametersInsert''
       [Elem (MapEach (Value (Member DocObj ''tags'')) ''tags'')]
       ((''id'', JNum 5) # exTagsDoc) None exRegistry
     = Inr [Some (JArr [JStr ''a!'', JStr ''b!''])]"
    by simp
  from m3 [OF ts out]
  have v: "\<exists>vals. length vals = 2 \<and>
      [Some (JNum 5), Some (JArr [JStr ''a!'', JStr ''b!''])] = concat vals \<and>
      vals ! 1 = [Some (JArr [JStr ''a!'', JStr ''b!''])]" .
  show ?thesis using e r ts out v by (intro conjI)
qed

subsection \<open>SELECT drops no binding\<close>

text \<open>
  C10. \<open>getSelect\<close> and \<open>selectParamsGetter\<close> take no table. When \<open>getSelect\<close> returns, every
  binding of the list, in order, has its condition, with a placeholder, in the \<open>WHERE\<close>
  clause, joined by \<open>AND\<close>. When the property names stand for themselves between quotes and
  the routine of \<open>selectParamsGetter\<close> returns, every binding of the list, in order, has its
  parameters, at least one, in the list returned: that list is the parameters that the
  routine of each binding alone returns, in order, followed by the limit when one is asked
  for. The text is returned whenever the values of the bindings are well-formed, and then
  so is the routine when the property names stand for themselves.
\<close>

theorem select_keeps_every_binding:
  "(\<forall>q. getSelect tn ks ps fs ob af lim = Inr q \<longrightarrow>
      (\<exists>conds rest.
         length conds = length ps \<and>
         (\<forall>i < length ps.
            getSingleCondition (columnName (ps ! i)) (val (ps ! i)) = Inr (conds ! i) \<and>
            CHR ''?'' \<in> set (conds ! i)) \<and>
         (ps \<noteq> [] \<longrightarrow>
            q = ''SELECT '' @ (if length fs > 0 then join '', '' (map columnName fs) else ''*'')
                  @ '' FROM '' @ ks @ ''.'' @ tn @ '' WHERE '' @ join '' AND '' conds @ rest))) \<and>
   (\<forall>g doc docInfo mappingInfo out.
      safeNames ps \<and> selectParamsGetter ps lim = Inr g \<and> g doc docInfo mappingInfo = Inr out \<longrightarrow>
      (\<exists>vals limitValue.
         length vals = length ps \<and>
         (\<forall>i < length ps.
            applyGetter (selectParamsGetter [ps ! i] JUndefined) doc docInfo mappingInfo
              = Inr (vals ! i) \<and>
            vals ! i \<noteq> []) \<and>
         out = concat vals @ limitValue \<and>
         length limitValue = (if isNumber lim then 1 else 0))) \<and>
   ((\<forall>p \<in> set ps. wellFormed (val p)) \<longrightarrow> (\<exists>q. getSelect tn ks ps fs ob af lim = Inr q)) \<and>
   ((\<forall>p \<in> set ps. wellFormed (val p)) \<and> safeNames ps \<longrightarrow>
      (\<exists>g. selectParamsGetter ps lim = Inr g))"
proof (intro conjI allI impI)
  fix q
  assume "getSelect tn ks ps fs ob af lim = Inr q"
  then show "\<exists>conds rest.
         length conds = length ps \<and>
         (\<forall>i < length ps.
            getSingleCondition (columnName (ps ! i)) (val (ps ! i)) = Inr (conds ! i) \<and>
            CHR ''?'' \<in> set (conds ! i)) \<and>
         (ps \<noteq> [] \<longrightarrow>
            q = ''SELECT '' @ (if length fs > 0 then join '', '' (map columnName fs) else ''*'')
                  @ '' FROM '' @ ks @ ''.'' @ tn @ '' WHERE '' @ join '' AND '' conds @ rest)"
    by (rule select_conditions_returned)
next
  fix g doc docInfo mappingInfo out
  assume "safeNames ps \<and> selectParamsGetter ps lim = Inr g \<and> g doc docInfo mappingInfo = Inr out"
  then show "\<exists>vals limitValue.
         length vals = length ps \<and>
         (\<forall>i < length ps.
            applyGetter (selectParamsGetter [ps ! i] JUndefined) doc docInfo mappingInfo
              = Inr (vals ! i) \<and>
            vals ! i \<noteq> []) \<and>
         out = concat vals @ limitValue \<and>
         length limitValue = (if isNumber lim then 1 else 0)"
    using select_values_returned [of ps lim g doc docInfo mappingInfo out] by blast
next
  assume "\<forall>p \<in> set ps. wellFormed (val p)"
  then show "\<exists>q. getSelect tn ks ps fs ob af lim = Inr q" by (rule getSelect_returns)
next
  assume "(\<forall>p \<in> set ps. wellFormed (val p)) \<and> safeNames ps"
  then show "\<exists>g. selectParamsGetter ps lim = Inr g"
    using selectParamsGetter_returns [of ps lim] by blast
qed

theorem select_keeps_every_binding_witness:
  "columnsByName exTable (columnName exGhost) = None \<and>
   getSelect ''t'' ''ks'' [exId, exGhost] [] [] False JUndefined
     = Inr ''SELECT * FROM ks.t WHERE id = ? AND ghost = ? ALLOW FILTERING'' \<and>
   applyGetter (selectParamsGetter [exId, exGhost] JUndefined) exGhostDoc None exMapping
     = Inr [Some (JNum 5), Some (JNum 7)] \<and>
   applyGetter (selectParamsGetter [exId] JUndefined) exGhostDoc None exMapping
     = Inr [Some (JNum 5)] \<and>
   applyGetter (selectParamsGetter [exGhost] JUndefined) exGhostDoc None exMapping
     = Inr [Some (JNum 7)] \<and>
   (\<exists>vals. length vals = 2 \<and> vals ! 0 = [Some (JNum 5)] \<and> vals ! 1 = [Some (JNum 7)] \<and>
            [Some (JNum 5), Some (JNum 7)] = concat vals)"
proof -
  have c: "columnsByName exTable (columnName exGhost) = None"
    by (simp add: ex_defs)
  have q: "getSelect ''t'' ''ks'' [exId, exGhost] [] [] False JUndefined
     = Inr ''SELECT * FROM ks.t WHERE id = ? AND ghost = ? ALLOW FILTERING''"
    by (simp add: ex_defs select_defs script_defs safe_defs Let_def)
  have o: "applyGetter (selectParamsGetter [exId, exGhost] JUndefined) exGhostDoc None exMapping
     = Inr [Some (JNum 5), Some (JNum 7)]"
    by (simp add: ex_defs vocab_defs select_defs script_defs safe_defs Let_def lookup_def)
  have o1: "applyGetter (selectParamsGetter [exId] JUndefined) exGhostDoc None exMapping
     = Inr [Some (JNum 5)]"
    by (simp add: ex_defs vocab_defs select_defs script_defs safe_defs Let_def lookup_def)
  have o2: "applyGetter (selectParamsGetter [exGhost] JUndefined) exGhostDoc None exMapping
     = Inr [Some (JNum 7)]"
    by (simp add: ex_defs vocab_defs select_defs script_defs safe_defs Let_def lookup_def)
  have s: "safeNames [exId, exGhost]" by (simp add: ex_defs safe_defs)
  from o obtain g where g: "selectParamsGetter [exId, exGhost] JUndefined = Inr g"
    and out: "g exGhostDoc None exMapping = Inr [Some (JNum 5), Some (JNum 7)]"
    by (auto simp: applyGetter_def split: sum.splits)
  from select_keeps_every_binding [of "''t''" "''ks''" "[exId, exGhost]" "[]" "[]" False JUndefined]
    s g out
  obtain vals :: "slot list list" and limitValue :: "slot list" where
    v: "length vals = length [exId, exGhost]"
    "\<forall>i < length [exId, exGhost].
        applyGetter (selectParamsGetter [[exId, exGhost] ! i] JUndefined) exGhostDoc None exMapping
          = Inr (vals ! i)"
    "[Some (JNum 5), Some (JNum 7)] = concat vals @ limitValue"
    "length limitValue = (if isNumber JUndefined then 1 else 0)"
    by blast
  from v(2) have "applyGetter (selectParamsGetter [exId] JUndefined) exGhostDoc None exMapping
          = Inr (vals ! 0)"
    and "applyGetter (selectParamsGetter [exGhost] JUndefined) exGhostDoc None exMapping
          = Inr (vals ! 1)"
    by (auto simp: nth_Cons')
  with o1 o2 v(1,3,4) have "length vals = 2 \<and> vals ! 0 = [Some (JNum 5)] \<and>
      vals ! 1 = [Some (JNum 7)] \<and> [Some (JNum 5), Some (JNum 7)] = concat vals"
    by simp
  with c q o o1 o2 show ?thesis by blast
qed

subsection \<open>Bindings on columns that the table does not have\<close>

text \<open>
  C6. A binding on a column that the table does not have should be in neither the query
  text nor the getter (the source says of its filter: not all columns are contained in the
  table). The table \<open>ks.t\<close> has the columns \<open>id\<close> and \<open>name\<close>. The binding on \<open>ghost\<close> is
  dropped from the text of the INSERT and from the values its getter returns. The table has
  no column \<open>constructor\<close> either, yet the binding on \<open>constructor\<close> is in the text of the
  INSERT and in the values its getter returns, and in the columns of the DELETE restricted
  to columns, while the UPDATE raises a TypeError: \<open>table.columnsByName['constructor']\<close> is
  the member that every object inherits, which is not \<open>undefined\<close>, and it has no \<open>type\<close>.
\<close>

theorem inherited_name_survives:
  "columnsByName exTable ''ghost'' = None \<and>
   statementQuery (getInsert exTable ''ks'' [exGhost, exId] None None False)
     = Inr ''INSERT INTO ks.t (id) VALUES (?)'' \<and>
   applyGetter (statementGetter (getInsert exTable ''ks'' [exGhost, exId] None None False))
       exGhostDoc None exMapping
     = Inr [Some (JNum 5)] \<and>
   columnsByName exTable ''constructor'' = None \<and>
   statementQuery (getInsert exTable ''ks'' [exConstructor, exId] None None False)
     = Inr ''INSERT INTO ks.t (constructor, id) VALUES (?, ?)'' \<and>
   applyGetter (statementGetter (getInsert exTable ''ks'' [exConstructor, exId] None None False))
       exConstructorDoc None exMapping
     = Inr [Some (JStr ''x''), Some (JNum 5)] \<and>
   statementQuery (getDelete exTable ''ks'' [exConstructor, exId] (Some exOnlyColumns) [] None)
     = Inr ''DELETE constructor FROM ks.t WHERE id = ?'' \<and>
   statementQuery (getUpdate exTable ''ks'' [exConstructor, exId] None [] None False)
     = Inl TypeError"
  by (simp add: ex_defs vocab_defs insert_defs delete_defs update_defs script_defs safe_defs
        Let_def lookup_def)

end
